theory Spec2Isabelle
  imports Main "HOL-Library.Sublist"
begin

section \<open>karmadactl deinit: the teardown of a Karmada installation\<close>

text \<open>
  A shallow embedding of \<^verbatim>\<open>pkg/karmadactl/deinit.go\<close>. The Kubernetes client,
  the file system, the process environment and standard input are outside the file;
  they are parameters of the model. Every call the code makes to the client is logged,
  with its answer, in the order it is made, and every line the code prints is logged
  as a message.
\<close>

subsection \<open>Constants\<close>

definition LabelSelector :: string where
  "LabelSelector = ''karmada.io/bootstrapping''"

definition karmadaNodeLabel :: string where
  "karmadaNodeLabel = ''karmada.io/etcd''"

subsection \<open>The string functions of the Go library that the code calls\<close>

text \<open>
  \<^verbatim>\<open>strings.ToLower\<close> on bytes: an ASCII capital becomes its small letter, every
  other byte stays. Go lower-cases Unicode letters outside ASCII as well, but none of
  them becomes one of the letters y, e, s, n, o, so the \<^verbatim>\<open>switch\<close> of
  \<^verbatim>\<open>deleteConfirmation\<close> takes the same branch.
\<close>

definition toLowerByte :: "char \<Rightarrow> char" where
  "toLowerByte c =
     (let n = (of_char c :: nat) in if 65 \<le> n \<and> n \<le> 90 then char_of (n + 32) else c)"

definition ToLower :: "string \<Rightarrow> string" where
  "ToLower s = map toLowerByte s"

text \<open>\<^verbatim>\<open>strings.Contains(s, substr)\<close>: \<open>substr\<close> occurs in \<open>s\<close> as a contiguous run.\<close>

fun Contains :: "string \<Rightarrow> string \<Rightarrow> bool" where
  "Contains [] substr = (substr = [])"
| "Contains (c # s) substr = (prefix substr (c # s) \<or> Contains s substr)"

subsection \<open>Data\<close>

datatype err = ErrEmptyConfig | StatusNotFound | OtherError string

datatype kind = Deployment | StatefulSet | Service | Secret | ClusterRole

text \<open>
  A node: of \<^verbatim>\<open>corev1.Node\<close> the code reads the name and the labels only. The label
  map is a list of key and value pairs with distinct keys.
\<close>

record node =
  Name :: string
  Labels :: "(string \<times> string) list"

text \<open>
  The calls of the client, each with its arguments and its answer: the namespace is
  absent for the cluster-scoped kind; a list answers with the names of the items.
\<close>

datatype event =
    Listed kind "string option" string "err + string list"
  | Deleted kind "string option" string "err option"
  | NodesListed string "err + node list"
  | NodeUpdated node "err option"
  | NamespaceGot string "err option"

text \<open>The client, over the state \<open>'w\<close> of whatever it talks to.\<close>

record 'w client =
  ListObjects :: "kind \<Rightarrow> string option \<Rightarrow> string \<Rightarrow> 'w \<Rightarrow> (err + string list) \<times> 'w"
  DeleteObject :: "kind \<Rightarrow> string option \<Rightarrow> string \<Rightarrow> 'w \<Rightarrow> err option \<times> 'w"
  ListNodes :: "string \<Rightarrow> 'w \<Rightarrow> (err + node list) \<times> 'w"
  UpdateNode :: "node \<Rightarrow> 'w \<Rightarrow> err option \<times> 'w"
  GetNamespace :: "string \<Rightarrow> 'w \<Rightarrow> err option \<times> 'w"

text \<open>The lines the code prints, one constructor for each print statement.\<close>

datatype msg =
    MsgRemoves
  | MsgPrompt
  | MsgError err
  | MsgDelete kind string
  | MsgNodeNotFound string
  | MsgRemoveNode string string
  | MsgSuccess

record 'w state =
  world :: 'w
  calls :: "event list"
  out :: "msg list"

text \<open>
  \<^verbatim>\<open>CommandDeInitOption\<close>, with the two fields of \<^verbatim>\<open>GlobalCommandOptions\<close> the
  code reads. \<^verbatim>\<open>Complete\<close> stores the client before \<^verbatim>\<open>Run\<close> reads it.
\<close>

record 'w CommandDeInitOption =
  KubeConfig :: string
  DryRun :: bool
  Namespace :: string
  Context :: string
  KubeClientSet :: "'w client"

text \<open>
  What \<^verbatim>\<open>Complete\<close> reads of its surroundings: the variable \<^verbatim>\<open>HOME\<close>,
  \<^verbatim>\<open>filepath.Join\<close>, the package's \<^verbatim>\<open>Exists\<close>, and \<^verbatim>\<open>utils.RestConfig\<close>
  and \<^verbatim>\<open>utils.NewClientSet\<close>, none of which is in the file.
\<close>

record ('w, 'cfg) env =
  HOME :: string
  Join :: "string \<Rightarrow> string \<Rightarrow> string"
  Exists :: "string \<Rightarrow> bool"
  RestConfig :: "string \<Rightarrow> string \<Rightarrow> err + 'cfg"
  NewClientSet :: "'cfg \<Rightarrow> err + 'w client"

text \<open>A function of the process either returns or ends the process with a status.\<close>

datatype 'a proc = Return 'a | Exit nat

subsection \<open>Printing and calling\<close>

definition print :: "msg \<Rightarrow> 'w state \<Rightarrow> 'w state" where
  "print m s = s\<lparr>out := out s @ [m]\<rparr>"

definition callList ::
  "'w client \<Rightarrow> kind \<Rightarrow> string option \<Rightarrow> string \<Rightarrow> 'w state \<Rightarrow> (err + string list) \<times> 'w state" where
  "callList c k ns sel s =
     (case ListObjects c k ns sel (world s) of
        (r, w) \<Rightarrow> (r, s\<lparr>world := w, calls := calls s @ [Listed k ns sel r]\<rparr>))"

definition callDelete ::
  "'w client \<Rightarrow> kind \<Rightarrow> string option \<Rightarrow> string \<Rightarrow> 'w state \<Rightarrow> err option \<times> 'w state" where
  "callDelete c k ns n s =
     (case DeleteObject c k ns n (world s) of
        (r, w) \<Rightarrow> (r, s\<lparr>world := w, calls := calls s @ [Deleted k ns n r]\<rparr>))"

definition callListNodes ::
  "'w client \<Rightarrow> string \<Rightarrow> 'w state \<Rightarrow> (err + node list) \<times> 'w state" where
  "callListNodes c sel s =
     (case ListNodes c sel (world s) of
        (r, w) \<Rightarrow> (r, s\<lparr>world := w, calls := calls s @ [NodesListed sel r]\<rparr>))"

definition callUpdateNode :: "'w client \<Rightarrow> node \<Rightarrow> 'w state \<Rightarrow> err option \<times> 'w state" where
  "callUpdateNode c nd s =
     (case UpdateNode c nd (world s) of
        (r, w) \<Rightarrow> (r, s\<lparr>world := w, calls := calls s @ [NodeUpdated nd r]\<rparr>))"

definition callGetNamespace :: "'w client \<Rightarrow> string \<Rightarrow> 'w state \<Rightarrow> err option \<times> 'w state" where
  "callGetNamespace c n s =
     (case GetNamespace c n (world s) of
        (r, w) \<Rightarrow> (r, s\<lparr>world := w, calls := calls s @ [NamespaceGot n r]\<rparr>))"

subsection \<open>Complete\<close>

text \<open>
  The options are changed in place, so they are returned with the result, also on an
  error. On an error of \<^verbatim>\<open>utils.NewClientSet\<close> the code stores what the call returned
  beside the error; the model keeps the old client, which nothing reads afterwards.
\<close>

definition Complete ::
  "('w, 'cfg) env \<Rightarrow> 'w CommandDeInitOption \<Rightarrow> 'w state
     \<Rightarrow> err option \<times> 'w CommandDeInitOption \<times> 'w state" where
  "Complete e o0 s =
     (let o1 = (if KubeConfig o0 = [] then o0\<lparr>KubeConfig := Join e (HOME e) ''.kube/config''\<rparr>
                else o0)
      in if \<not> Exists e (KubeConfig o1) then (Some ErrEmptyConfig, o1, s)
         else case RestConfig e (Context o1) (KubeConfig o1) of
                Inl er \<Rightarrow> (Some er, o1, s)
              | Inr restConfig \<Rightarrow>
                  (case NewClientSet e restConfig of
                     Inl er \<Rightarrow> (Some er, o1, s)
                   | Inr cs \<Rightarrow>
                       (let o2 = o1\<lparr>KubeClientSet := cs\<rparr>
                        in case callGetNamespace (KubeClientSet o2) (Namespace o2) s of
                             (Some er, s1) \<Rightarrow> (Some er, o2, s1)
                           | (None, s1) \<Rightarrow> (None, o2, s1))))"

subsection \<open>delete and deleteWorkload\<close>

text \<open>
  The five blocks of \<^verbatim>\<open>deleteWorkload\<close> and \<^verbatim>\<open>delete\<close> are the same code for five
  kinds: list by \<^verbatim>\<open>LabelSelector\<close>, then for each item print its name and, unless
  \<^verbatim>\<open>DryRun\<close>, delete it, returning the first error. \<open>deleteItems\<close> is the loop,
  \<open>deleteByLabel\<close> the block.
\<close>

fun deleteItems ::
  "'w client \<Rightarrow> bool \<Rightarrow> kind \<Rightarrow> string option \<Rightarrow> string list \<Rightarrow> 'w state \<Rightarrow> err option \<times> 'w state" where
  "deleteItems c dry k ns [] s = (None, s)"
| "deleteItems c dry k ns (n # items) s =
     (let s1 = print (MsgDelete k n) s
      in if dry then deleteItems c dry k ns items s1
         else case callDelete c k ns n s1 of
                (Some er, s2) \<Rightarrow> (Some er, s2)
              | (None, s2) \<Rightarrow> deleteItems c dry k ns items s2)"

definition deleteByLabel ::
  "'w client \<Rightarrow> bool \<Rightarrow> kind \<Rightarrow> string option \<Rightarrow> 'w state \<Rightarrow> err option \<times> 'w state" where
  "deleteByLabel c dry k ns s =
     (case callList c k ns LabelSelector s of
        (Inl er, s1) \<Rightarrow> (Some er, s1)
      | (Inr items, s1) \<Rightarrow> deleteItems c dry k ns items s1)"

definition deleteWorkload :: "'w CommandDeInitOption \<Rightarrow> 'w state \<Rightarrow> err option \<times> 'w state" where
  "deleteWorkload o0 s =
     (case deleteByLabel (KubeClientSet o0) (DryRun o0) Deployment (Some (Namespace o0)) s of
        (Some er, s1) \<Rightarrow> (Some er, s1)
      | (None, s1) \<Rightarrow>
          deleteByLabel (KubeClientSet o0) (DryRun o0) StatefulSet (Some (Namespace o0)) s1)"

definition delete :: "'w CommandDeInitOption \<Rightarrow> 'w state \<Rightarrow> err option \<times> 'w state" where
  "delete o0 s =
     (case deleteWorkload o0 s of
        (Some er, s1) \<Rightarrow> (Some er, s1)
      | (None, s1) \<Rightarrow>
          (case deleteByLabel (KubeClientSet o0) (DryRun o0) Service (Some (Namespace o0)) s1 of
             (Some er, s2) \<Rightarrow> (Some er, s2)
           | (None, s2) \<Rightarrow>
               (case deleteByLabel (KubeClientSet o0) (DryRun o0) Secret (Some (Namespace o0)) s2 of
                  (Some er, s3) \<Rightarrow> (Some er, s3)
                | (None, s3) \<Rightarrow>
                    deleteByLabel (KubeClientSet o0) (DryRun o0) ClusterRole None s3)))"

subsection \<open>removeLabels and removeNodeLabels\<close>

definition deleteKey :: "string \<Rightarrow> (string \<times> string) list \<Rightarrow> (string \<times> string) list" where
  "deleteKey k m = filter (\<lambda>kv. fst kv \<noteq> k) m"

text \<open>
  The loop ranges over the keys of the map and deletes the current key when it contains
  \<open>removesLabel\<close>; deleting the current key does not disturb a Go range.
\<close>

definition removeLabels :: "node \<Rightarrow> string \<Rightarrow> node" where
  "removeLabels nd removesLabel =
     nd\<lparr>Labels := fold (\<lambda>label m. if Contains label removesLabel then deleteKey label m else m)
                        (map fst (Labels nd)) (Labels nd)\<rparr>"

fun updateNodes :: "'w client \<Rightarrow> bool \<Rightarrow> node list \<Rightarrow> 'w state \<Rightarrow> err option \<times> 'w state" where
  "updateNodes c dry [] s = (None, s)"
| "updateNodes c dry (nd # items) s =
     (let nd1 = removeLabels nd karmadaNodeLabel;
          s1 = print (MsgRemoveNode (Name nd1) karmadaNodeLabel) s
      in if dry then updateNodes c dry items s1
         else case callUpdateNode c nd1 s1 of
                (Some er, s2) \<Rightarrow> (Some er, s2)
              | (None, s2) \<Rightarrow> updateNodes c dry items s2)"

definition removeNodeLabels :: "'w CommandDeInitOption \<Rightarrow> 'w state \<Rightarrow> err option \<times> 'w state" where
  "removeNodeLabels o0 s =
     (case callListNodes (KubeClientSet o0) karmadaNodeLabel s of
        (Inl er, s1) \<Rightarrow> (Some er, s1)
      | (Inr items, s1) \<Rightarrow>
          if length items = 0 then (None, print (MsgNodeNotFound karmadaNodeLabel) s1)
          else updateNodes (KubeClientSet o0) (DryRun o0) items s1)"

subsection \<open>deleteConfirmation\<close>

text \<open>
  Standard input is the sequence of the results of \<^verbatim>\<open>fmt.Scanln\<close>: the word read, or
  the error. The function calls itself on a word it does not know, so on an input of
  unknown words without end it does not return: its value is then \<open>None\<close>.
\<close>

text \<open>
  \<^verbatim>\<open>fmt.Scanln(&response)\<close> on one line of the input, given without its newline, or
  on the end of the input: it skips the blanks in front, reads the word up to the next
  blank and wants nothing but blanks behind it. A line without a word is the error
  \<open>unexpected newline\<close>, a line with more than one word the error \<open>expected newline\<close>.
  The blanks are those of ASCII; the ones Unicode has beyond are not modelled.
\<close>

definition isSpace :: "char \<Rightarrow> bool" where
  "isSpace c = (c \<in> {CHR '' '', CHR 0x09, CHR 0x0B, CHR 0x0C, CHR 0x0D})"

definition Scanln :: "string option \<Rightarrow> err + string" where
  "Scanln line =
     (case line of
        None \<Rightarrow> Inl (OtherError ''EOF'')
      | Some l \<Rightarrow>
          (let l1 = dropWhile isSpace l;
               w = takeWhile (\<lambda>c. \<not> isSpace c) l1;
               rest = dropWhile (\<lambda>c. \<not> isSpace c) l1
           in if w = [] then Inl (OtherError ''unexpected newline'')
              else if list_all isSpace rest then Inr w
              else Inl (OtherError ''expected newline'')))"

text \<open>Standard input as the lines typed, the end of the input behind them.\<close>

definition readLines :: "string list \<Rightarrow> nat \<Rightarrow> err + string" where
  "readLines ls i = Scanln (if i < length ls then Some (ls ! i) else None)"

partial_function (option) deleteConfirmation ::
  "(nat \<Rightarrow> err + string) \<Rightarrow> nat \<Rightarrow> msg list \<Rightarrow> (bool proc \<times> msg list) option" where
  "deleteConfirmation stdin i ms =
     (let ms1 = ms @ [MsgPrompt]
      in case stdin i of
           Inl er \<Rightarrow> Some (Exit 1, ms1 @ [MsgError er])
         | Inr response \<Rightarrow>
             (let r = ToLower response
              in if r = ''y'' \<or> r = ''yes'' then Some (Return True, ms1)
                 else if r = ''n'' \<or> r = ''no'' then Some (Return False, ms1)
                 else deleteConfirmation stdin (Suc i) ms1))"

subsection \<open>Run and the command\<close>

definition Run ::
  "'w CommandDeInitOption \<Rightarrow> (nat \<Rightarrow> err + string) \<Rightarrow> 'w state
     \<Rightarrow> (err option proc \<times> 'w state) option" where
  "Run o0 stdin s =
     (case deleteConfirmation stdin 0 (out s @ [MsgRemoves]) of
        None \<Rightarrow> None
      | Some (Exit n, ms) \<Rightarrow> Some (Exit n, s\<lparr>out := ms\<rparr>)
      | Some (Return False, ms) \<Rightarrow> Some (Return None, s\<lparr>out := ms\<rparr>)
      | Some (Return True, ms) \<Rightarrow>
          Some (case delete o0 (s\<lparr>out := ms\<rparr>) of
                  (Some er, s1) \<Rightarrow> (Return (Some er), s1)
                | (None, s1) \<Rightarrow>
                    (case removeNodeLabels o0 s1 of
                       (Some er, s2) \<Rightarrow> (Return (Some er), s2)
                     | (None, s2) \<Rightarrow> (Return None, print MsgSuccess s2))))"

text \<open>The \<^verbatim>\<open>RunE\<close> of the command that \<^verbatim>\<open>NewCmdDeInit\<close> builds.\<close>

definition RunE ::
  "('w, 'cfg) env \<Rightarrow> 'w CommandDeInitOption \<Rightarrow> (nat \<Rightarrow> err + string) \<Rightarrow> 'w state
     \<Rightarrow> (err option proc \<times> 'w state) option" where
  "RunE e opts stdin s =
     (case Complete e opts s of
        (Some er, o1, s1) \<Rightarrow> Some (Return (Some er), s1)
      | (None, o1, s1) \<Rightarrow> Run o1 stdin s1)"

subsection \<open>Words of the confirmation\<close>

text \<open>Every casing of the four words the prompt knows.\<close>

definition yesWords :: "string set" where
  "yesWords = {''y'', ''Y'', ''yes'', ''yeS'', ''yEs'', ''yES'', ''Yes'', ''YeS'', ''YEs'', ''YES''}"

definition noWords :: "string set" where
  "noWords = {''n'', ''N'', ''no'', ''nO'', ''No'', ''NO''}"

subsection \<open>Standard inputs of the examples\<close>

definition eof :: err where
  "eof = OtherError ''EOF''"

definition yesStdin :: "nat \<Rightarrow> err + string" where
  "yesStdin i = (if i = 0 then Inr ''maybe'' else if i = 1 then Inr ''YeS'' else Inl eof)"

definition noStdin :: "nat \<Rightarrow> err + string" where
  "noStdin i = (if i = 0 then Inr ''maybe'' else if i = 1 then Inr ''No'' else Inl eof)"

definition emptyStdin :: "nat \<Rightarrow> err + string" where
  "emptyStdin i = Inl eof"

subsection \<open>Reading the log of calls\<close>

text \<open>The error a call answered with, if any.\<close>

fun failed :: "event \<Rightarrow> err option" where
  "failed (Listed k ns sel r) = (case r of Inl er \<Rightarrow> Some er | Inr items \<Rightarrow> None)"
| "failed (Deleted k ns n r) = r"
| "failed (NodesListed sel r) = (case r of Inl er \<Rightarrow> Some er | Inr items \<Rightarrow> None)"
| "failed (NodeUpdated nd r) = r"
| "failed (NamespaceGot n r) = r"

text \<open>
  The stage a call belongs to: 0 for the check of the namespace in \<^verbatim>\<open>Complete\<close>, 1 to 5
  for the five kinds in the order of the code, 6 for the nodes.
\<close>

fun kindStage :: "kind \<Rightarrow> nat" where
  "kindStage Deployment = 1"
| "kindStage StatefulSet = 2"
| "kindStage Service = 3"
| "kindStage Secret = 4"
| "kindStage ClusterRole = 5"

fun stage :: "event \<Rightarrow> nat" where
  "stage (Listed k ns sel r) = kindStage k"
| "stage (Deleted k ns n r) = kindStage k"
| "stage (NodesListed sel r) = 6"
| "stage (NodeUpdated nd r) = 6"
| "stage (NamespaceGot n r) = 0"

text \<open>The calls that change the cluster.\<close>

fun mutation :: "event \<Rightarrow> bool" where
  "mutation (Deleted k ns n r) = True"
| "mutation (NodeUpdated nd r) = True"
| "mutation ev = False"

text \<open>The namespace a kind is listed and deleted in: none for the cluster-scoped kind.\<close>

fun scope :: "kind \<Rightarrow> string \<Rightarrow> string option" where
  "scope ClusterRole ns = None"
| "scope k ns = Some ns"

text \<open>
  A kind has been processed in a log when the log holds its list by \<open>LabelSelector\<close> with
  an answer of items and, unless the run is dry, a delete without error of every item.
\<close>

definition processed :: "bool \<Rightarrow> kind \<Rightarrow> string option \<Rightarrow> event list \<Rightarrow> bool" where
  "processed dry k ns evs \<longleftrightarrow>
     (\<exists>items. Listed k ns LabelSelector (Inr items) \<in> set evs
        \<and> (dry \<or> (\<forall>n \<in> set items. Deleted k ns n None \<in> set evs)))"

text \<open>The notices due for the answer of a discovery: one for each object it names.\<close>

fun notices :: "event \<Rightarrow> msg list" where
  "notices (Listed k ns sel (Inr items)) = map (MsgDelete k) items"
| "notices (NodesListed sel (Inr items)) =
     (if items = [] then [MsgNodeNotFound sel] else map (\<lambda>nd. MsgRemoveNode (Name nd) sel) items)"
| "notices ev = []"

text \<open>
  A log is fail-fast for a result: no call but the last has answered with an error, and
  the last has answered with the error that is the result, or with none when there is
  no error to return.
\<close>

definition failFast :: "err option \<Rightarrow> event list \<Rightarrow> bool" where
  "failFast r evs \<longleftrightarrow>
     (\<forall>ev \<in> set (butlast evs). failed ev = None)
     \<and> (case r of None \<Rightarrow> (\<forall>ev \<in> set evs. failed ev = None)
                 | Some er \<Rightarrow> evs \<noteq> [] \<and> failed (last evs) = Some er)"

text \<open>
  A log has reached stage \<open>i\<close> with a result: its calls are of the stages 1 to \<open>i\<close> in
  this order, it is fail-fast, every kind of a stage before \<open>i\<close> has been processed, and
  so has the kind of stage \<open>i\<close> when the result is no error. \<open>trace\<close> says so of the
  calls between two states, and that a dry run or a run without error has printed the
  notices of its discoveries and nothing else.
\<close>

definition reached :: "bool \<Rightarrow> string \<Rightarrow> nat \<Rightarrow> err option \<Rightarrow> event list \<Rightarrow> bool" where
  "reached dry ns i r evs \<longleftrightarrow>
     (\<forall>ev \<in> set evs. 1 \<le> stage ev \<and> stage ev \<le> i)
     \<and> sorted (map stage evs)
     \<and> failFast r evs
     \<and> (\<forall>k. kindStage k < i \<longrightarrow> processed dry k (scope k ns) evs)
     \<and> (r = None \<longrightarrow> (\<forall>k. kindStage k = i \<longrightarrow> processed dry k (scope k ns) evs))"

definition trace ::
  "bool \<Rightarrow> string \<Rightarrow> 'w state \<Rightarrow> 'w state \<Rightarrow> nat \<Rightarrow> err option \<Rightarrow> event list \<Rightarrow> bool" where
  "trace dry ns s s' i r evs \<longleftrightarrow>
     calls s' = calls s @ evs
     \<and> reached dry ns i r evs
     \<and> (dry \<longrightarrow> (\<forall>ev \<in> set evs. \<not> mutation ev))
     \<and> (dry \<or> r = None \<longrightarrow> out s' = out s @ concat (map notices evs))"

subsection \<open>A cluster in memory\<close>

text \<open>
  A client for the examples: objects and nodes in plain lists. A list by a selector that
  is a bare key answers with the objects that carry a label with this key; a delete or
  an update of a name that is not there answers not found.
\<close>

record obj =
  oKind :: kind
  oNamespace :: "string option"
  oName :: string
  oLabels :: "(string \<times> string) list"

record cluster =
  objs :: "obj list"
  nodes :: "node list"
  namespaces :: "string list"

definition hasLabel :: "string \<Rightarrow> (string \<times> string) list \<Rightarrow> bool" where
  "hasLabel sel ls = (sel \<in> set (map fst ls))"

definition isObj :: "kind \<Rightarrow> string option \<Rightarrow> string \<Rightarrow> obj \<Rightarrow> bool" where
  "isObj k ns n x = (oKind x = k \<and> oNamespace x = ns \<and> oName x = n)"

definition fakeClient :: "cluster client" where
  "fakeClient =
     \<lparr>ListObjects = (\<lambda>k ns sel w.
        (Inr (map oName (filter (\<lambda>x. oKind x = k \<and> oNamespace x = ns \<and> hasLabel sel (oLabels x))
                           (objs w))), w)),
      DeleteObject = (\<lambda>k ns n w.
        if list_ex (isObj k ns n) (objs w)
        then (None, w\<lparr>objs := filter (\<lambda>x. \<not> isObj k ns n x) (objs w)\<rparr>)
        else (Some StatusNotFound, w)),
      ListNodes = (\<lambda>sel w. (Inr (filter (\<lambda>nd. hasLabel sel (Labels nd)) (nodes w)), w)),
      UpdateNode = (\<lambda>nd w.
        if Name nd \<in> set (map Name (nodes w))
        then (None, w\<lparr>nodes := map (\<lambda>x. if Name x = Name nd then nd else x) (nodes w)\<rparr>)
        else (Some StatusNotFound, w)),
      GetNamespace = (\<lambda>n w. (if n \<in> set (namespaces w) then None else Some StatusNotFound, w))\<rparr>"

text \<open>
  A client that has seen a deployment which is gone from the cluster by the time it is
  deleted: its list of deployments names \<open>''api''\<close> whatever the cluster holds.
\<close>

definition staleClient :: "cluster client" where
  "staleClient =
     fakeClient\<lparr>ListObjects := (\<lambda>k ns sel w.
        if k = Deployment then (Inr [''api''], w) else ListObjects fakeClient k ns sel w)\<rparr>"

subsection \<open>A cluster, options and surroundings of the examples\<close>

definition boot :: "(string \<times> string) list" where
  "boot = [(''karmada.io/bootstrapping'', ''x'')]"

definition demoCluster :: cluster where
  "demoCluster =
     \<lparr>objs = [\<lparr>oKind = Deployment, oNamespace = Some ''ks'', oName = ''api'', oLabels = boot\<rparr>,
              \<lparr>oKind = Deployment, oNamespace = Some ''ks'', oName = ''web'', oLabels = []\<rparr>,
              \<lparr>oKind = StatefulSet, oNamespace = Some ''ks'', oName = ''etcd'', oLabels = boot\<rparr>,
              \<lparr>oKind = Service, oNamespace = Some ''ks'', oName = ''api'', oLabels = boot\<rparr>,
              \<lparr>oKind = Secret, oNamespace = Some ''ks'', oName = ''cert'', oLabels = boot\<rparr>,
              \<lparr>oKind = ClusterRole, oNamespace = None, oName = ''view'', oLabels = boot\<rparr>],
      nodes = [\<lparr>Name = ''n1'', Labels = [(''karmada.io/etcd'', []), (''other.io/x'', ''1'')]\<rparr>,
               \<lparr>Name = ''n2'', Labels = [(''karmada.io/etcd-old'', [])]\<rparr>],
      namespaces = [''ks'']\<rparr>"

text \<open>The cluster without the deployment \<open>''api''\<close>.\<close>

definition racedCluster :: cluster where
  "racedCluster = demoCluster\<lparr>objs := tl (objs demoCluster)\<rparr>"

definition demoState :: "cluster state" where
  "demoState = \<lparr>world = demoCluster, calls = [], out = []\<rparr>"

definition racedState :: "cluster state" where
  "racedState = \<lparr>world = racedCluster, calls = [], out = []\<rparr>"

definition demoOpts :: "cluster CommandDeInitOption" where
  "demoOpts = \<lparr>KubeConfig = ''/kc'', DryRun = False, Namespace = ''ks'', Context = [],
               KubeClientSet = fakeClient\<rparr>"

definition dryOpts :: "cluster CommandDeInitOption" where
  "dryOpts = demoOpts\<lparr>DryRun := True\<rparr>"

definition staleOpts :: "cluster CommandDeInitOption" where
  "staleOpts = demoOpts\<lparr>KubeClientSet := staleClient\<rparr>"

text \<open>
  Surroundings for the examples: one file of configuration, \<open>''/kc''\<close>, that only the
  empty context can be read from, and a second one whose client cannot be built.
\<close>

definition demoEnv :: "(cluster, string) env" where
  "demoEnv =
     \<lparr>HOME = ''/root'',
      Join = (\<lambda>a b. a @ ''/'' @ b),
      Exists = (\<lambda>p. p = ''/kc'' \<or> p = ''/bad''),
      RestConfig = (\<lambda>ctx p. if ctx = [] then Inr p else Inl (OtherError ''no context'')),
      NewClientSet = (\<lambda>cfg. if cfg = ''/kc'' then Inr fakeClient else Inl (OtherError ''no client''))\<rparr>"

text \<open>The state after the teardown of \<open>demoState\<close>.\<close>

definition demoDone :: "cluster state" where
  "demoDone =
     \<lparr>world = \<lparr>objs = [\<lparr>oKind = Deployment, oNamespace = Some ''ks'', oName = ''web'', oLabels = []\<rparr>],
               nodes = [\<lparr>Name = ''n1'', Labels = [(''other.io/x'', ''1'')]\<rparr>,
                        \<lparr>Name = ''n2'', Labels = [(''karmada.io/etcd-old'', [])]\<rparr>],
               namespaces = [''ks'']\<rparr>,
      calls = [Listed Deployment (Some ''ks'') LabelSelector (Inr [''api'']),
               Deleted Deployment (Some ''ks'') ''api'' None,
               Listed StatefulSet (Some ''ks'') LabelSelector (Inr [''etcd'']),
               Deleted StatefulSet (Some ''ks'') ''etcd'' None,
               Listed Service (Some ''ks'') LabelSelector (Inr [''api'']),
               Deleted Service (Some ''ks'') ''api'' None,
               Listed Secret (Some ''ks'') LabelSelector (Inr [''cert'']),
               Deleted Secret (Some ''ks'') ''cert'' None,
               Listed ClusterRole None LabelSelector (Inr [''view'']),
               Deleted ClusterRole None ''view'' None,
               NodesListed karmadaNodeLabel
                 (Inr [\<lparr>Name = ''n1'', Labels = [(''karmada.io/etcd'', []), (''other.io/x'', ''1'')]\<rparr>]),
               NodeUpdated \<lparr>Name = ''n1'', Labels = [(''other.io/x'', ''1'')]\<rparr> None],
      out = [MsgRemoves, MsgPrompt, MsgPrompt,
             MsgDelete Deployment ''api'', MsgDelete StatefulSet ''etcd'',
             MsgDelete Service ''api'', MsgDelete Secret ''cert'', MsgDelete ClusterRole ''view'',
             MsgRemoveNode ''n1'' karmadaNodeLabel, MsgSuccess]\<rparr>"

text \<open>The state after the dry run on \<open>demoState\<close>: the cluster is as before.\<close>

definition dryDone :: "cluster state" where
  "dryDone =
     \<lparr>world = demoCluster,
      calls = [Listed Deployment (Some ''ks'') LabelSelector (Inr [''api'']),
               Listed StatefulSet (Some ''ks'') LabelSelector (Inr [''etcd'']),
               Listed Service (Some ''ks'') LabelSelector (Inr [''api'']),
               Listed Secret (Some ''ks'') LabelSelector (Inr [''cert'']),
               Listed ClusterRole None LabelSelector (Inr [''view'']),
               NodesListed karmadaNodeLabel
                 (Inr [\<lparr>Name = ''n1'', Labels = [(''karmada.io/etcd'', []), (''other.io/x'', ''1'')]\<rparr>])],
      out = [MsgRemoves, MsgPrompt, MsgPrompt,
             MsgDelete Deployment ''api'', MsgDelete StatefulSet ''etcd'',
             MsgDelete Service ''api'', MsgDelete Secret ''cert'', MsgDelete ClusterRole ''view'',
             MsgRemoveNode ''n1'' karmadaNodeLabel, MsgSuccess]\<rparr>"

text \<open>
  The state after the teardown of \<open>racedState\<close> through the stale client: the stateful
  set, the service, the secret and the cluster role are still there.
\<close>

definition racedDone :: "cluster state" where
  "racedDone =
     \<lparr>world = racedCluster,
      calls = [Listed Deployment (Some ''ks'') LabelSelector (Inr [''api'']),
               Deleted Deployment (Some ''ks'') ''api'' (Some StatusNotFound)],
      out = [MsgRemoves, MsgPrompt, MsgPrompt, MsgDelete Deployment ''api'']\<rparr>"

section \<open>The confirmation prompt\<close>

lemma of_char_toLowerByte:
  "(of_char (toLowerByte c) :: nat) =
     (if 65 \<le> (of_char c :: nat) \<and> (of_char c :: nat) \<le> 90 then of_char c + 32 else of_char c)"
  by (simp add: toLowerByte_def Let_def of_char_of)

lemma toLowerByte_eq_iff:
  assumes "(of_char l :: nat) = of_char u + 32"
    and "65 \<le> (of_char u :: nat)" and "(of_char u :: nat) \<le> 90"
  shows "toLowerByte c = l \<longleftrightarrow> c = l \<or> c = u"
proof -
  have "toLowerByte c = l \<longleftrightarrow> (of_char (toLowerByte c) :: nat) = of_char l"
    by (simp only: of_char_eq_iff)
  also have "\<dots> \<longleftrightarrow> (of_char c :: nat) = of_char l \<or> (of_char c :: nat) = of_char u"
    using assms by (auto simp: of_char_toLowerByte)
  also have "\<dots> \<longleftrightarrow> c = l \<or> c = u"
    by (simp only: of_char_eq_iff)
  finally show ?thesis .
qed

lemma toLowerByte_y: "toLowerByte c = CHR ''y'' \<longleftrightarrow> c = CHR ''y'' \<or> c = CHR ''Y''"
  by (rule toLowerByte_eq_iff) simp_all

lemma toLowerByte_e: "toLowerByte c = CHR ''e'' \<longleftrightarrow> c = CHR ''e'' \<or> c = CHR ''E''"
  by (rule toLowerByte_eq_iff) simp_all

lemma toLowerByte_s: "toLowerByte c = CHR ''s'' \<longleftrightarrow> c = CHR ''s'' \<or> c = CHR ''S''"
  by (rule toLowerByte_eq_iff) simp_all

lemma toLowerByte_n: "toLowerByte c = CHR ''n'' \<longleftrightarrow> c = CHR ''n'' \<or> c = CHR ''N''"
  by (rule toLowerByte_eq_iff) simp_all

lemma toLowerByte_o: "toLowerByte c = CHR ''o'' \<longleftrightarrow> c = CHR ''o'' \<or> c = CHR ''O''"
  by (rule toLowerByte_eq_iff) simp_all

lemma ToLower_Cons:
  "ToLower r = a # as \<longleftrightarrow> (\<exists>c cs. r = c # cs \<and> toLowerByte c = a \<and> ToLower cs = as)"
  by (cases r) (auto simp: ToLower_def)

lemma ToLower_Nil: "ToLower r = [] \<longleftrightarrow> r = []"
  by (simp add: ToLower_def)

lemma ToLower_2:
  "ToLower r = [a, b] \<longleftrightarrow> (\<exists>c d. r = [c, d] \<and> toLowerByte c = a \<and> toLowerByte d = b)"
  by (simp only: ToLower_Cons ToLower_Nil) blast

lemma ToLower_3:
  "ToLower r = [a, b, x] \<longleftrightarrow>
     (\<exists>c d e. r = [c, d, e] \<and> toLowerByte c = a \<and> toLowerByte d = b \<and> toLowerByte e = x)"
  by (simp only: ToLower_Cons ToLower_Nil) blast

lemma ToLower_y: "ToLower r = ''y'' \<longleftrightarrow> r \<in> {''y'', ''Y''}"
  by (auto simp: ToLower_Cons ToLower_Nil toLowerByte_y)

lemma ToLower_n: "ToLower r = ''n'' \<longleftrightarrow> r \<in> {''n'', ''N''}"
  by (auto simp: ToLower_Cons ToLower_Nil toLowerByte_n)

lemma ToLower_no: "ToLower r = ''no'' \<longleftrightarrow> r \<in> {''no'', ''nO'', ''No'', ''NO''}"
proof
  assume "ToLower r = ''no''"
  then obtain c d where r: "r = [c, d]"
    and c: "c = CHR ''n'' \<or> c = CHR ''N''" and d: "d = CHR ''o'' \<or> d = CHR ''O''"
    unfolding ToLower_2 toLowerByte_n toLowerByte_o by blast
  from c d show "r \<in> {''no'', ''nO'', ''No'', ''NO''}"
    unfolding r by (elim disjE) simp_all
next
  assume "r \<in> {''no'', ''nO'', ''No'', ''NO''}"
  then show "ToLower r = ''no''"
    by (elim insertE emptyE) (simp_all add: ToLower_def toLowerByte_n toLowerByte_o)
qed

lemma ToLower_yes:
  "ToLower r = ''yes'' \<longleftrightarrow>
     r \<in> {''yes'', ''yeS'', ''yEs'', ''yES'', ''Yes'', ''YeS'', ''YEs'', ''YES''}"
proof
  assume "ToLower r = ''yes''"
  then obtain c d e where r: "r = [c, d, e]"
    and c: "c = CHR ''y'' \<or> c = CHR ''Y''" and d: "d = CHR ''e'' \<or> d = CHR ''E''"
    and e: "e = CHR ''s'' \<or> e = CHR ''S''"
    unfolding ToLower_3 toLowerByte_y toLowerByte_e toLowerByte_s by blast
  from c d e show "r \<in> {''yes'', ''yeS'', ''yEs'', ''yES'', ''Yes'', ''YeS'', ''YEs'', ''YES''}"
    unfolding r by (elim disjE) simp_all
next
  assume "r \<in> {''yes'', ''yeS'', ''yEs'', ''yES'', ''Yes'', ''YeS'', ''YEs'', ''YES''}"
  then show "ToLower r = ''yes''"
    by (elim insertE emptyE) (simp_all add: ToLower_def toLowerByte_y toLowerByte_e toLowerByte_s)
qed

lemma ToLower_yesWords: "(ToLower r = ''y'' \<or> ToLower r = ''yes'') \<longleftrightarrow> r \<in> yesWords"
  unfolding ToLower_y ToLower_yes yesWords_def
  by (simp only: insert_iff empty_iff simp_thms disj_assoc)

lemma ToLower_noWords: "(ToLower r = ''n'' \<or> ToLower r = ''no'') \<longleftrightarrow> r \<in> noWords"
  unfolding ToLower_n ToLower_no noWords_def
  by (simp only: insert_iff empty_iff simp_thms disj_assoc)


lemma deleteConfirmation_unfold:
  "stdin i = Inr response \<Longrightarrow>
   deleteConfirmation stdin i ms =
      (if response \<in> yesWords then Some (Return True, ms @ [MsgPrompt])
       else if response \<in> noWords then Some (Return False, ms @ [MsgPrompt])
       else deleteConfirmation stdin (Suc i) (ms @ [MsgPrompt]))"
  by (subst deleteConfirmation.simps)
     (simp only: sum.case Let_def ToLower_yesWords ToLower_noWords)

lemma deleteConfirmation_yesStdin:
  "deleteConfirmation yesStdin 0 ms = Some (Return True, ms @ [MsgPrompt, MsgPrompt])"
proof -
  have 0: "yesStdin 0 = Inr ''maybe''" and 1: "yesStdin (Suc 0) = Inr ''YeS''"
    by (simp_all add: yesStdin_def)
  have a: "''maybe'' \<notin> yesWords" "''maybe'' \<notin> noWords" and b: "''YeS'' \<in> yesWords"
    by (simp_all add: yesWords_def noWords_def)
  show ?thesis
    by (simp add: deleteConfirmation_unfold [of yesStdin 0, OF 0]
        deleteConfirmation_unfold [of yesStdin "Suc 0", OF 1] a b)
qed

lemma deleteConfirmation_noStdin:
  "deleteConfirmation noStdin 0 ms = Some (Return False, ms @ [MsgPrompt, MsgPrompt])"
proof -
  have 0: "noStdin 0 = Inr ''maybe''" and 1: "noStdin (Suc 0) = Inr ''No''"
    by (simp_all add: noStdin_def)
  have a: "''maybe'' \<notin> yesWords" "''maybe'' \<notin> noWords"
    and b: "''No'' \<notin> yesWords" "''No'' \<in> noWords"
    by (simp_all add: yesWords_def noWords_def)
  show ?thesis
    by (simp add: deleteConfirmation_unfold [of noStdin 0, OF 0]
        deleteConfirmation_unfold [of noStdin "Suc 0", OF 1] a b)
qed




lemma readLines_pad: "readLines ['' YeS ''] 0 = Inr ''YeS''"
  by (simp add: readLines_def Scanln_def isSpace_def)




text \<open>
  C9. When the scan fails, the prompt prints the error and ends the process with status
  1: it neither reads again nor returns, and \<^verbatim>\<open>Run\<close> ends with the same status.
\<close>

theorem deleteConfirmation_scan_error:
  "(stdin i = Inl er \<longrightarrow>
      deleteConfirmation stdin i ms = Some (Exit 1, ms @ [MsgPrompt, MsgError er]))
   \<and> (deleteConfirmation stdin 0 (out s @ [MsgRemoves]) = Some (Exit n, ms') \<longrightarrow>
      Run opts stdin s = Some (Exit n, s\<lparr>out := ms'\<rparr>))"
  by (subst deleteConfirmation.simps) (simp add: Run_def)

theorem deleteConfirmation_scan_error_witness:
  "deleteConfirmation emptyStdin 0 [MsgRemoves] = Some (Exit 1, [MsgRemoves, MsgPrompt, MsgError eof])
   \<and> Run demoOpts emptyStdin demoState
       = Some (Exit 1, demoState\<lparr>out := [MsgRemoves, MsgPrompt, MsgError eof]\<rparr>)"
proof -
  have e: "emptyStdin 0 = Inl eof" by (simp add: emptyStdin_def)
  have o: "out demoState = []" by (simp add: demoState_def)
  from deleteConfirmation_scan_error [of emptyStdin 0 eof "[MsgRemoves]"
      demoState 1 "[MsgRemoves, MsgPrompt, MsgError eof]" demoOpts] e o
  show ?thesis by simp
qed

section \<open>Declining\<close>

text \<open>
  C5. When the confirmation returns false, \<^verbatim>\<open>Run\<close> returns nil and has called the
  client not at all: the log of calls and the state behind the client are as before.
\<close>

theorem Run_declined:
  assumes "deleteConfirmation stdin 0 (out s @ [MsgRemoves]) = Some (Return False, ms)"
  shows "\<exists>s'. Run opts stdin s = Some (Return None, s') \<and> calls s' = calls s \<and> world s' = world s"
  using assms by (simp add: Run_def)

theorem Run_declined_witness:
  "\<exists>s'. Run demoOpts noStdin demoState = Some (Return None, s')
      \<and> calls s' = calls demoState \<and> world s' = world demoState"
proof -
  have o: "out demoState = []" by (simp add: demoState_def)
  show ?thesis
    using Run_declined [of noStdin demoState "[MsgRemoves, MsgPrompt, MsgPrompt]" demoOpts]
      deleteConfirmation_noStdin [of "[MsgRemoves]"] o
    by simp
qed

section \<open>The log of the deletions\<close>

lemma failFast_Nil: "failFast None []"
  by (simp add: failFast_def)

lemma failFast_Cons: "failed ev = None \<Longrightarrow> failFast r evs \<Longrightarrow> failFast r (ev # evs)"
  by (cases r) (auto simp: failFast_def)

lemma failFast_single: "failed ev = r \<Longrightarrow> failFast r [ev]"
  by (cases r) (auto simp: failFast_def)

lemma failFast_None: "failFast None evs \<longleftrightarrow> (\<forall>ev \<in> set evs. failed ev = None)"
  by (auto simp: failFast_def dest: in_set_butlastD)

lemma failFast_append: "failFast None evs \<Longrightarrow> failFast r evs' \<Longrightarrow> failFast r (evs @ evs')"
  by (induction evs) (simp_all add: failFast_None failFast_Cons)

lemma deleteItems_log:
  "deleteItems c dry k ns items s = (r, s') \<Longrightarrow>
   \<exists>evs. calls s' = calls s @ evs
     \<and> (\<forall>ev \<in> set evs. \<exists>n a. ev = Deleted k ns n a)
     \<and> failFast r evs
     \<and> (r = None \<and> \<not> dry \<longrightarrow> evs = map (\<lambda>n. Deleted k ns n None) items)
     \<and> (dry \<longrightarrow> evs = [] \<and> r = None)
     \<and> (dry \<or> r = None \<longrightarrow> out s' = out s @ map (MsgDelete k) items)"
proof (induction items arbitrary: s)
  case Nil
  then show ?case by (simp add: failFast_Nil)
next
  case (Cons n items)
  show ?case
  proof (cases dry)
    case True
    with Cons.prems have "deleteItems c dry k ns items (print (MsgDelete k n) s) = (r, s')"
      by simp
    from Cons.IH [OF this] True show ?thesis
      by (simp add: print_def failFast_Nil)
  next
    case False
    obtain a w where d: "DeleteObject c k ns n (world s) = (a, w)"
      by (cases "DeleteObject c k ns n (world s)")
    define s2 where "s2 = s\<lparr>out := out s @ [MsgDelete k n], world := w,
                 calls := calls s @ [Deleted k ns n a]\<rparr>"
    have s2: "calls s2 = calls s @ [Deleted k ns n a]" "out s2 = out s @ [MsgDelete k n]"
      by (simp_all add: s2_def)
    have c: "callDelete c k ns n (print (MsgDelete k n) s) = (a, s2)"
      by (simp add: print_def callDelete_def d s2_def)
    show ?thesis
    proof (cases a)
      case None
      with Cons.prems False c have "deleteItems c dry k ns items s2 = (r, s')"
        by simp
      from Cons.IH [OF this] obtain evs where evs: "calls s' = calls s2 @ evs"
        "\<forall>ev \<in> set evs. \<exists>n a. ev = Deleted k ns n a" "failFast r evs"
        "r = None \<and> \<not> dry \<longrightarrow> evs = map (\<lambda>n. Deleted k ns n None) items"
        "dry \<or> r = None \<longrightarrow> out s' = out s2 @ map (MsgDelete k) items"
        by blast
      have 1: "calls s' = calls s @ (Deleted k ns n None # evs)"
        using evs(1) s2 None by simp
      have 2: "\<forall>ev \<in> set (Deleted k ns n None # evs). \<exists>n a. ev = Deleted k ns n a"
        using evs(2) by simp
      have 3: "failFast r (Deleted k ns n None # evs)"
        using evs(3) by (simp add: failFast_Cons)
      have 4: "r = None \<and> \<not> dry \<longrightarrow>
          Deleted k ns n None # evs = map (\<lambda>n. Deleted k ns n None) (n # items)"
        using evs(4) by simp
      have 5: "dry \<or> r = None \<longrightarrow> out s' = out s @ map (MsgDelete k) (n # items)"
        using evs(5) s2 by simp
      show ?thesis
      proof (intro exI [of _ "Deleted k ns n None # evs"] conjI)
        show "dry \<longrightarrow> Deleted k ns n None # evs = [] \<and> r = None" using False by simp
      qed (fact 1 2 3 4 5)+
    next
      case (Some er)
      with Cons.prems False c have r: "r = Some er" and s': "s' = s2"
        by simp_all
      have 1: "calls s' = calls s @ [Deleted k ns n (Some er)]"
        using s' s2 Some by simp
      have 3: "failFast r [Deleted k ns n (Some er)]"
        using r by (simp add: failFast_single)
      show ?thesis
      proof (intro exI [of _ "[Deleted k ns n (Some er)]"] conjI)
        show "\<forall>ev \<in> set [Deleted k ns n (Some er)]. \<exists>n a. ev = Deleted k ns n a" by simp
        show "r = None \<and> \<not> dry \<longrightarrow>
            [Deleted k ns n (Some er)] = map (\<lambda>n. Deleted k ns n None) (n # items)"
          using r by simp
        show "dry \<longrightarrow> [Deleted k ns n (Some er)] = [] \<and> r = None" using False by simp
        show "dry \<or> r = None \<longrightarrow> out s' = out s @ map (MsgDelete k) (n # items)"
          using False r by simp
      qed (fact 1 3)+
    qed
  qed
qed

lemma notices_Deleted: "\<forall>ev \<in> set evs. \<exists>n a. ev = Deleted k ns n a \<Longrightarrow> concat (map notices evs) = []"
  by (induction evs) auto

lemma deleteByLabel_log:
  assumes "deleteByLabel c dry k ns s = (r, s')"
  shows "\<exists>evs. calls s' = calls s @ evs
     \<and> evs \<noteq> []
     \<and> (\<forall>ev \<in> set evs. stage ev = kindStage k)
     \<and> failFast r evs
     \<and> (r = None \<longrightarrow> processed dry k ns evs)
     \<and> (dry \<longrightarrow> (\<forall>ev \<in> set evs. \<not> mutation ev))
     \<and> (dry \<or> r = None \<longrightarrow> out s' = out s @ concat (map notices evs))"
proof -
  obtain a w where l: "ListObjects c k ns LabelSelector (world s) = (a, w)"
    by (cases "ListObjects c k ns LabelSelector (world s)")
  define s1 where "s1 = s\<lparr>world := w, calls := calls s @ [Listed k ns LabelSelector a]\<rparr>"
  have s1: "calls s1 = calls s @ [Listed k ns LabelSelector a]" "out s1 = out s"
    by (simp_all add: s1_def)
  have c: "callList c k ns LabelSelector s = (a, s1)"
    by (simp add: callList_def l s1_def)
  show ?thesis
  proof (cases a)
    case (Inl er)
    with assms c have r: "r = Some er" and s': "s' = s1"
      by (simp_all add: deleteByLabel_def)
    have 3: "failFast r [Listed k ns LabelSelector a]"
      using r Inl by (simp add: failFast_single)
    show ?thesis
    proof (intro exI [of _ "[Listed k ns LabelSelector a]"] conjI)
      show "calls s' = calls s @ [Listed k ns LabelSelector a]" using s' s1 by simp
      show "failFast r [Listed k ns LabelSelector a]" by (fact 3)
      show "dry \<or> r = None \<longrightarrow>
          out s' = out s @ concat (map notices [Listed k ns LabelSelector a])"
        using s' s1 Inl by simp
    qed (simp_all add: r)
  next
    case (Inr items)
    with assms c have "deleteItems c dry k ns items s1 = (r, s')"
      by (simp add: deleteByLabel_def)
    from deleteItems_log [OF this] obtain evs where evs: "calls s' = calls s1 @ evs"
      "\<forall>ev \<in> set evs. \<exists>n a. ev = Deleted k ns n a" "failFast r evs"
      "r = None \<and> \<not> dry \<longrightarrow> evs = map (\<lambda>n. Deleted k ns n None) items"
      "dry \<longrightarrow> evs = [] \<and> r = None"
      "dry \<or> r = None \<longrightarrow> out s' = out s1 @ map (MsgDelete k) items"
      by blast
    define evs' where "evs' = Listed k ns LabelSelector (Inr items) # evs"
    have 1: "calls s' = calls s @ evs'" using evs(1) s1 Inr by (simp add: evs'_def)
    have 0: "evs' \<noteq> []" by (simp add: evs'_def)
    have 2: "\<forall>ev \<in> set evs'. stage ev = kindStage k" using evs(2) by (auto simp: evs'_def)
    have 3: "failFast r evs'" using evs(3) by (simp add: failFast_Cons evs'_def)
    have 4: "r = None \<longrightarrow> processed dry k ns evs'"
    proof
      assume r: "r = None"
      have "Listed k ns LabelSelector (Inr items) \<in> set evs'"
        by (simp add: evs'_def)
      moreover have "dry \<or> (\<forall>n \<in> set items. Deleted k ns n None \<in> set evs')"
        using evs(4) r by (cases dry) (simp_all add: evs'_def)
      ultimately show "processed dry k ns evs'"
        unfolding processed_def by blast
    qed
    have 5: "dry \<longrightarrow> (\<forall>ev \<in> set evs'. \<not> mutation ev)" using evs(5) by (simp add: evs'_def)
    have 6: "dry \<or> r = None \<longrightarrow> out s' = out s @ concat (map notices evs')"
      using evs(6) notices_Deleted [OF evs(2)] s1 by (simp add: evs'_def)
    show ?thesis
      by (intro exI [of _ evs'] conjI) (fact 0 1 2 3 4 5 6)+
  qed
qed

lemma processed_append1: "processed dry k ns evs \<Longrightarrow> processed dry k ns (evs @ evs')"
  unfolding processed_def by auto

lemma processed_append2: "processed dry k ns evs' \<Longrightarrow> processed dry k ns (evs @ evs')"
  unfolding processed_def by auto

lemma kindStage_pos: "1 \<le> kindStage k"
  by (cases k) simp_all

lemma kindStage_inj: "kindStage k = kindStage k' \<Longrightarrow> k = k'"
  by (cases k; cases k') simp_all

lemma sorted_const: "\<forall>x \<in> set xs. f x = c \<Longrightarrow> sorted (map f xs)"
  by (induction xs) auto

lemma kindStage_neq0: "kindStage k \<noteq> 0"
  by (cases k) simp_all

lemma reached_Nil: "reached dry ns 0 None []"
  by (simp add: reached_def failFast_Nil kindStage_neq0)

lemma reached_step:
  assumes pre: "reached dry ns i None pre"
    and st: "\<forall>ev \<in> set new. stage ev = Suc i"
    and ff: "failFast r new"
    and pr: "r = None \<longrightarrow> (\<forall>k. kindStage k = Suc i \<longrightarrow> processed dry k (scope k ns) new)"
  shows "reached dry ns (Suc i) r (pre @ new)"
proof -
  from pre have p1: "\<forall>ev \<in> set pre. 1 \<le> stage ev \<and> stage ev \<le> i"
    and p2: "sorted (map stage pre)" and p3: "failFast None pre"
    and p4: "\<forall>k. kindStage k < i \<longrightarrow> processed dry k (scope k ns) pre"
    and p5: "\<forall>k. kindStage k = i \<longrightarrow> processed dry k (scope k ns) pre"
    by (simp_all add: reached_def)
  have 1: "\<forall>ev \<in> set (pre @ new). 1 \<le> stage ev \<and> stage ev \<le> Suc i"
    using p1 st by auto
  have 2: "sorted (map stage (pre @ new))"
    using p1 p2 st sorted_const [of new stage "Suc i"] by (auto simp: sorted_append)
  have 3: "failFast r (pre @ new)"
    using p3 ff by (rule failFast_append)
  have 4: "\<forall>k. kindStage k < Suc i \<longrightarrow> processed dry k (scope k ns) (pre @ new)"
  proof (intro allI impI)
    fix k assume "kindStage k < Suc i"
    then have "kindStage k < i \<or> kindStage k = i" by arith
    with p4 p5 have "processed dry k (scope k ns) pre" by blast
    then show "processed dry k (scope k ns) (pre @ new)" by (rule processed_append1)
  qed
  have 5: "r = None \<longrightarrow> (\<forall>k. kindStage k = Suc i \<longrightarrow> processed dry k (scope k ns) (pre @ new))"
    using pr processed_append2 by blast
  from 1 2 3 4 5 show ?thesis unfolding reached_def by blast
qed


lemma trace_refl: "trace dry ns s s 0 None []"
  by (simp add: trace_def reached_Nil)

lemma trace_block:
  assumes t: "trace dry ns s s1 i None pre"
    and b: "deleteByLabel c dry k (scope k ns) s1 = (r, s2)"
    and k: "kindStage k = Suc i"
  shows "\<exists>evs. trace dry ns s s2 (Suc i) r evs"
proof -
  from deleteByLabel_log [OF b] obtain new where new: "calls s2 = calls s1 @ new"
    "\<forall>ev \<in> set new. stage ev = kindStage k" "failFast r new"
    "r = None \<longrightarrow> processed dry k (scope k ns) new"
    "dry \<longrightarrow> (\<forall>ev \<in> set new. \<not> mutation ev)"
    "dry \<or> r = None \<longrightarrow> out s2 = out s1 @ concat (map notices new)"
    by blast
  from t have t1: "calls s1 = calls s @ pre" and t2: "reached dry ns i None pre"
    and t3: "dry \<longrightarrow> (\<forall>ev \<in> set pre. \<not> mutation ev)"
    and t4: "out s1 = out s @ concat (map notices pre)"
    by (simp_all add: trace_def)
  have pr: "r = None \<longrightarrow> (\<forall>k'. kindStage k' = Suc i \<longrightarrow> processed dry k' (scope k' ns) new)"
  proof (intro impI allI)
    fix k' assume "r = None" and "kindStage k' = Suc i"
    with k have "k' = k" by (intro kindStage_inj) simp
    with new(4) \<open>r = None\<close> show "processed dry k' (scope k' ns) new" by simp
  qed
  have 1: "calls s2 = calls s @ (pre @ new)" using new(1) t1 by simp
  have st: "\<forall>ev \<in> set new. stage ev = Suc i" using new(2) k by simp
  have 2: "reached dry ns (Suc i) r (pre @ new)"
    using t2 st new(3) pr by (rule reached_step)
  have 3: "dry \<longrightarrow> (\<forall>ev \<in> set (pre @ new). \<not> mutation ev)"
    using t3 new(5) by (simp add: ball_Un)
  have 4: "dry \<or> r = None \<longrightarrow> out s2 = out s @ concat (map notices (pre @ new))"
    using t4 new(6) by simp
  from 1 2 3 4 have "trace dry ns s s2 (Suc i) r (pre @ new)"
    unfolding trace_def by (intro conjI)
  then show ?thesis ..
qed


section \<open>Stripping the labels of the nodes\<close>

lemma fold_deleteKey:
  "fold (\<lambda>label m. if P label then deleteKey label m else m) ks m
     = filter (\<lambda>kv. \<not> (P (fst kv) \<and> fst kv \<in> set ks)) m"
proof (induction ks arbitrary: m)
  case Nil
  then show ?case by simp
next
  case (Cons k ks)
  show ?case
  proof (cases "P k")
    case True
    then show ?thesis
      by (simp add: Cons.IH deleteKey_def) (rule filter_cong, auto)
  next
    case False
    then show ?thesis
      by (simp add: Cons.IH) (rule filter_cong, auto)
  qed
qed

lemma Labels_removeLabels:
  "Labels (removeLabels nd l) = filter (\<lambda>kv. \<not> Contains (fst kv) l) (Labels nd)"
  unfolding removeLabels_def by (simp add: fold_deleteKey) (rule filter_cong, auto)

lemma Name_removeLabels: "Name (removeLabels nd l) = Name nd"
  by (simp add: removeLabels_def)

lemma removeLabels_clean:
  "kv \<in> set (Labels (removeLabels nd l)) \<Longrightarrow> \<not> Contains (fst kv) l"
  by (simp add: Labels_removeLabels)

lemma removeLabels_id:
  assumes "\<forall>kv \<in> set (Labels nd). \<not> Contains (fst kv) l"
  shows "removeLabels nd l = nd"
proof -
  have "filter (\<lambda>kv. \<not> Contains (fst kv) l) (Labels nd) = Labels nd"
    using assms by (simp add: filter_id_conv)
  then have "Labels (removeLabels nd l) = Labels nd" by (simp add: Labels_removeLabels)
  then show ?thesis by (simp add: removeLabels_def)
qed

lemma Contains_sublist: "Contains s sub = sublist sub s"
  by (induction s) (simp_all add: sublist_Cons_right)


lemma updateNodes_log:
  "updateNodes c dry items s = (r, s') \<Longrightarrow>
   \<exists>evs. calls s' = calls s @ evs
     \<and> (\<forall>ev \<in> set evs. \<exists>nd a. ev = NodeUpdated nd a)
     \<and> failFast r evs
     \<and> (r = None \<and> \<not> dry \<longrightarrow>
          evs = map (\<lambda>nd. NodeUpdated (removeLabels nd karmadaNodeLabel) None) items)
     \<and> (dry \<longrightarrow> evs = [] \<and> r = None)
     \<and> (dry \<or> r = None \<longrightarrow>
          out s' = out s @ map (\<lambda>nd. MsgRemoveNode (Name nd) karmadaNodeLabel) items)"
proof (induction items arbitrary: s)
  case Nil
  then show ?case by (simp add: failFast_Nil)
next
  case (Cons nd items)
  define nd1 where "nd1 = removeLabels nd karmadaNodeLabel"
  have nm: "Name nd1 = Name nd" by (simp add: nd1_def Name_removeLabels)
  show ?case
  proof (cases dry)
    case True
    with Cons.prems
    have "updateNodes c dry items (print (MsgRemoveNode (Name nd1) karmadaNodeLabel) s) = (r, s')"
      by (simp add: nd1_def Let_def)
    from Cons.IH [OF this] True show ?thesis
      by (simp add: print_def failFast_Nil nm)
  next
    case False
    obtain a w where d: "UpdateNode c nd1 (world s) = (a, w)"
      by (cases "UpdateNode c nd1 (world s)")
    define s2 where "s2 = s\<lparr>out := out s @ [MsgRemoveNode (Name nd1) karmadaNodeLabel], world := w,
                 calls := calls s @ [NodeUpdated nd1 a]\<rparr>"
    have s2: "calls s2 = calls s @ [NodeUpdated nd1 a]"
      "out s2 = out s @ [MsgRemoveNode (Name nd) karmadaNodeLabel]"
      by (simp_all add: s2_def nm)
    have c: "callUpdateNode c nd1 (print (MsgRemoveNode (Name nd1) karmadaNodeLabel) s) = (a, s2)"
      by (simp add: print_def callUpdateNode_def d s2_def)
    show ?thesis
    proof (cases a)
      case None
      with Cons.prems False c have "updateNodes c dry items s2 = (r, s')"
        by (simp add: nd1_def Let_def)
      from Cons.IH [OF this] obtain evs where evs: "calls s' = calls s2 @ evs"
        "\<forall>ev \<in> set evs. \<exists>nd a. ev = NodeUpdated nd a" "failFast r evs"
        "r = None \<and> \<not> dry \<longrightarrow>
           evs = map (\<lambda>nd. NodeUpdated (removeLabels nd karmadaNodeLabel) None) items"
        "dry \<or> r = None \<longrightarrow>
           out s' = out s2 @ map (\<lambda>nd. MsgRemoveNode (Name nd) karmadaNodeLabel) items"
        by blast
      have 1: "calls s' = calls s @ (NodeUpdated nd1 None # evs)"
        using evs(1) s2 None by simp
      have 2: "\<forall>ev \<in> set (NodeUpdated nd1 None # evs). \<exists>nd a. ev = NodeUpdated nd a"
        using evs(2) by simp
      have 3: "failFast r (NodeUpdated nd1 None # evs)"
        using evs(3) by (simp add: failFast_Cons)
      have 4: "r = None \<and> \<not> dry \<longrightarrow> NodeUpdated nd1 None # evs
          = map (\<lambda>nd. NodeUpdated (removeLabels nd karmadaNodeLabel) None) (nd # items)"
        using evs(4) by (simp add: nd1_def)
      have 5: "dry \<or> r = None \<longrightarrow>
          out s' = out s @ map (\<lambda>nd. MsgRemoveNode (Name nd) karmadaNodeLabel) (nd # items)"
        using evs(5) s2 by simp
      show ?thesis
      proof (intro exI [of _ "NodeUpdated nd1 None # evs"] conjI)
        show "dry \<longrightarrow> NodeUpdated nd1 None # evs = [] \<and> r = None" using False by simp
      qed (fact 1 2 3 4 5)+
    next
      case (Some er)
      with Cons.prems False c have r: "r = Some er" and s': "s' = s2"
        by (simp_all add: nd1_def Let_def)
      have 1: "calls s' = calls s @ [NodeUpdated nd1 (Some er)]"
        using s' s2 Some by simp
      have 3: "failFast r [NodeUpdated nd1 (Some er)]"
        using r by (simp add: failFast_single)
      show ?thesis
      proof (intro exI [of _ "[NodeUpdated nd1 (Some er)]"] conjI)
        show "\<forall>ev \<in> set [NodeUpdated nd1 (Some er)]. \<exists>nd a. ev = NodeUpdated nd a" by simp
        show "r = None \<and> \<not> dry \<longrightarrow> [NodeUpdated nd1 (Some er)]
            = map (\<lambda>nd. NodeUpdated (removeLabels nd karmadaNodeLabel) None) (nd # items)"
          using r by simp
        show "dry \<longrightarrow> [NodeUpdated nd1 (Some er)] = [] \<and> r = None" using False by simp
        show "dry \<or> r = None \<longrightarrow>
            out s' = out s @ map (\<lambda>nd. MsgRemoveNode (Name nd) karmadaNodeLabel) (nd # items)"
          using False r by simp
      qed (fact 1 3)+
    qed
  qed
qed

lemma notices_NodeUpdated:
  "\<forall>ev \<in> set evs. \<exists>nd a. ev = NodeUpdated nd a \<Longrightarrow> concat (map notices evs) = []"
  by (induction evs) auto

lemma stage_NodeUpdated:
  "\<forall>ev \<in> set evs. \<exists>nd a. ev = NodeUpdated nd a \<Longrightarrow> \<forall>ev \<in> set evs. stage ev = 6"
  by (induction evs) auto

lemma removeNodeLabels_log:
  assumes "removeNodeLabels opts s = (r, s')"
  shows "\<exists>res evs. calls s' = calls s @ NodesListed karmadaNodeLabel res # evs
     \<and> (\<forall>ev \<in> set evs. \<exists>nd a. ev = NodeUpdated nd a)
     \<and> failFast r (NodesListed karmadaNodeLabel res # evs)
     \<and> (DryRun opts \<longrightarrow> evs = [])
     \<and> (r = None \<and> \<not> DryRun opts \<longrightarrow> (\<exists>items. res = Inr items
           \<and> evs = map (\<lambda>nd. NodeUpdated (removeLabels nd karmadaNodeLabel) None) items))
     \<and> (DryRun opts \<or> r = None \<longrightarrow>
           out s' = out s @ notices (NodesListed karmadaNodeLabel res))"
proof -
  define c where "c = KubeClientSet opts"
  obtain a w where l: "ListNodes c karmadaNodeLabel (world s) = (a, w)"
    by (cases "ListNodes c karmadaNodeLabel (world s)")
  define s1 where "s1 = s\<lparr>world := w, calls := calls s @ [NodesListed karmadaNodeLabel a]\<rparr>"
  have s1: "calls s1 = calls s @ [NodesListed karmadaNodeLabel a]" "out s1 = out s"
    by (simp_all add: s1_def)
  have cl: "callListNodes (KubeClientSet opts) karmadaNodeLabel s = (a, s1)"
    by (simp add: callListNodes_def l [unfolded c_def] s1_def)
  show ?thesis
  proof (cases a)
    case (Inl er)
    with assms cl have r: "r = Some er" and s': "s' = s1"
      by (simp_all add: removeNodeLabels_def)
    show ?thesis
    proof (intro exI [of _ a] exI [of _ "[]"] conjI)
      show "calls s' = calls s @ [NodesListed karmadaNodeLabel a]" using s' s1 by simp
      show "failFast r [NodesListed karmadaNodeLabel a]"
        using r Inl by (simp add: failFast_single)
      show "DryRun opts \<or> r = None \<longrightarrow>
          out s' = out s @ notices (NodesListed karmadaNodeLabel a)"
        using s' s1 Inl by simp
    qed (simp_all add: r)
  next
    case (Inr items)
    show ?thesis
    proof (cases "items = []")
      case True
      with assms cl Inr have r: "r = None"
        and s': "s' = print (MsgNodeNotFound karmadaNodeLabel) s1"
        by (simp_all add: removeNodeLabels_def)
      show ?thesis
      proof (intro exI [of _ a] exI [of _ "[]"] conjI)
        show "calls s' = calls s @ [NodesListed karmadaNodeLabel a]"
          using s' s1 by (simp add: print_def)
        show "failFast r [NodesListed karmadaNodeLabel a]"
          using r Inr by (simp add: failFast_single)
        show "DryRun opts \<or> r = None \<longrightarrow>
            out s' = out s @ notices (NodesListed karmadaNodeLabel a)"
          using s' s1 Inr True by (simp add: print_def)
        show "r = None \<and> \<not> DryRun opts \<longrightarrow> (\<exists>items. a = Inr items
           \<and> [] = map (\<lambda>nd. NodeUpdated (removeLabels nd karmadaNodeLabel) None) items)"
          using Inr True by simp
      qed simp_all
    next
      case False
      with assms cl Inr have "updateNodes (KubeClientSet opts) (DryRun opts) items s1 = (r, s')"
        by (simp add: removeNodeLabels_def)
      from updateNodes_log [OF this] obtain evs where evs: "calls s' = calls s1 @ evs"
        "\<forall>ev \<in> set evs. \<exists>nd a. ev = NodeUpdated nd a" "failFast r evs"
        "r = None \<and> \<not> DryRun opts \<longrightarrow>
           evs = map (\<lambda>nd. NodeUpdated (removeLabels nd karmadaNodeLabel) None) items"
        "DryRun opts \<longrightarrow> evs = [] \<and> r = None"
        "DryRun opts \<or> r = None \<longrightarrow>
           out s' = out s1 @ map (\<lambda>nd. MsgRemoveNode (Name nd) karmadaNodeLabel) items"
        by blast
      show ?thesis
      proof (intro exI [of _ a] exI [of _ evs] conjI)
        show "calls s' = calls s @ NodesListed karmadaNodeLabel a # evs"
          using evs(1) s1 by simp
        show "failFast r (NodesListed karmadaNodeLabel a # evs)"
          using evs(3) Inr by (simp add: failFast_Cons)
        show "DryRun opts \<longrightarrow> evs = []" using evs(5) by simp
        show "r = None \<and> \<not> DryRun opts \<longrightarrow> (\<exists>items. a = Inr items
           \<and> evs = map (\<lambda>nd. NodeUpdated (removeLabels nd karmadaNodeLabel) None) items)"
          using evs(4) Inr by simp
        show "DryRun opts \<or> r = None \<longrightarrow>
            out s' = out s @ notices (NodesListed karmadaNodeLabel a)"
          using evs(6) s1 Inr False by simp
      qed (fact evs(2))
    qed
  qed
qed


section \<open>The log of the whole teardown\<close>

lemma delete_log:
  assumes "delete opts s = (r, s')"
  shows "\<exists>i evs. trace (DryRun opts) (Namespace opts) s s' i r evs \<and> i \<le> 5 \<and> (r = None \<longrightarrow> i = 5)"
proof -
  define c where "c = KubeClientSet opts"
  define dry where "dry = DryRun opts"
  define ns where "ns = Namespace opts"
  obtain r1 s1 where b1: "deleteByLabel c dry Deployment (scope Deployment ns) s = (r1, s1)"
    by (cases "deleteByLabel c dry Deployment (scope Deployment ns) s")
  obtain r2 s2 where b2: "deleteByLabel c dry StatefulSet (scope StatefulSet ns) s1 = (r2, s2)"
    by (cases "deleteByLabel c dry StatefulSet (scope StatefulSet ns) s1")
  obtain r3 s3 where b3: "deleteByLabel c dry Service (scope Service ns) s2 = (r3, s3)"
    by (cases "deleteByLabel c dry Service (scope Service ns) s2")
  obtain r4 s4 where b4: "deleteByLabel c dry Secret (scope Secret ns) s3 = (r4, s4)"
    by (cases "deleteByLabel c dry Secret (scope Secret ns) s3")
  obtain r5 s5 where b5: "deleteByLabel c dry ClusterRole (scope ClusterRole ns) s4 = (r5, s5)"
    by (cases "deleteByLabel c dry ClusterRole (scope ClusterRole ns) s4")
  note bs = b1 [unfolded c_def dry_def ns_def scope.simps] b2 [unfolded c_def dry_def ns_def scope.simps]
    b3 [unfolded c_def dry_def ns_def scope.simps] b4 [unfolded c_def dry_def ns_def scope.simps]
    b5 [unfolded c_def dry_def ns_def scope.simps]
  from trace_block [OF trace_refl b1] obtain e1 where t1: "trace dry ns s s1 1 r1 e1"
    by auto
  show ?thesis
  proof (cases r1)
    case (Some er)
    with assms bs have "r = r1" "s' = s1" by (simp_all add: delete_def deleteWorkload_def)
    with t1 Some show ?thesis unfolding dry_def ns_def by (intro exI [of _ 1] exI [of _ e1]) simp
  next
    case n1: None
    from trace_block [OF t1 [unfolded n1] b2] obtain e2 where t2: "trace dry ns s s2 2 r2 e2"
      by (auto simp: numeral_2_eq_2)
    show ?thesis
    proof (cases r2)
      case (Some er)
      with assms bs n1 have "r = r2" "s' = s2" by (simp_all add: delete_def deleteWorkload_def)
      with t2 Some show ?thesis unfolding dry_def ns_def by (intro exI [of _ 2] exI [of _ e2]) simp
    next
      case n2: None
      from trace_block [OF t2 [unfolded n2] b3] obtain e3 where t3: "trace dry ns s s3 3 r3 e3"
        by (auto simp: numeral_3_eq_3)
      show ?thesis
      proof (cases r3)
        case (Some er)
        with assms bs n1 n2 have "r = r3" "s' = s3" by (simp_all add: delete_def deleteWorkload_def)
        with t3 Some show ?thesis unfolding dry_def ns_def by (intro exI [of _ 3] exI [of _ e3]) simp
      next
        case n3: None
        have "Suc 3 = 4" by simp
        with trace_block [OF t3 [unfolded n3] b4] obtain e4 where t4: "trace dry ns s s4 4 r4 e4"
          by auto
        show ?thesis
        proof (cases r4)
          case (Some er)
          with assms bs n1 n2 n3 have "r = r4" "s' = s4"
            by (simp_all add: delete_def deleteWorkload_def)
          with t4 Some show ?thesis unfolding dry_def ns_def by (intro exI [of _ 4] exI [of _ e4]) simp
        next
          case n4: None
          have "Suc 4 = 5" by simp
          with trace_block [OF t4 [unfolded n4] b5] obtain e5 where t5: "trace dry ns s s5 5 r5 e5"
            by auto
          from assms bs n1 n2 n3 n4 have "r = r5" "s' = s5"
            by (simp_all add: delete_def deleteWorkload_def)
          with t5 show ?thesis unfolding dry_def ns_def by (intro exI [of _ 5] exI [of _ e5]) simp
        qed
      qed
    qed
  qed
qed


lemma kindStage_neq6: "kindStage k \<noteq> 6"
  by (cases k) simp_all

lemma reached_mono: "reached dry ns i r evs \<Longrightarrow> ev \<in> set evs \<Longrightarrow> kindStage k < stage ev
    \<Longrightarrow> processed dry k (scope k ns) evs"
  unfolding reached_def by (meson less_le_trans)

lemma teardown_log:
  assumes d: "delete opts s0 = (r1, s1)"
    and rest: "(case r1 of
                  Some er \<Rightarrow> (Return (Some er), s1)
                | None \<Rightarrow> (case removeNodeLabels opts s1 of
                             (Some er, s2) \<Rightarrow> (Return (Some er), s2)
                           | (None, s2) \<Rightarrow> (Return None, print MsgSuccess s2))) = (p, s')"
  shows "\<exists>r i evs. p = Return r \<and> calls s' = calls s0 @ evs
     \<and> reached (DryRun opts) (Namespace opts) i r evs
     \<and> (DryRun opts \<longrightarrow> (\<forall>ev \<in> set evs. \<not> mutation ev))
     \<and> (DryRun opts \<or> r = None \<longrightarrow>
          out s' = out s0 @ concat (map notices evs) @ (if r = None then [MsgSuccess] else []))
     \<and> (r = None \<and> \<not> DryRun opts \<longrightarrow>
          (\<forall>sel items. NodesListed sel (Inr items) \<in> set evs \<longrightarrow>
             (\<forall>nd \<in> set items. NodeUpdated (removeLabels nd karmadaNodeLabel) None \<in> set evs)))"
proof -
  define dry where "dry = DryRun opts"
  define ns where "ns = Namespace opts"
  from delete_log [OF d] obtain i e where t: "trace dry ns s0 s1 i r1 e" and i: "r1 = None \<longrightarrow> i = 5"
    unfolding dry_def ns_def by blast
  from t have t1: "calls s1 = calls s0 @ e" and t2: "reached dry ns i r1 e"
    and t3: "dry \<longrightarrow> (\<forall>ev \<in> set e. \<not> mutation ev)"
    and t4: "dry \<or> r1 = None \<longrightarrow> out s1 = out s0 @ concat (map notices e)"
    by (simp_all add: trace_def)
  show ?thesis
  proof (cases r1)
    case (Some er)
    with rest have p: "p = Return r1" and s': "s' = s1" by simp_all
    show ?thesis
    proof (intro exI [of _ r1] exI [of _ i] exI [of _ e] conjI)
      show "DryRun opts \<or> r1 = None \<longrightarrow>
          out s' = out s0 @ concat (map notices e) @ (if r1 = None then [MsgSuccess] else [])"
        using t4 s' Some by (simp add: dry_def)
      show "r1 = None \<and> \<not> DryRun opts \<longrightarrow>
          (\<forall>sel items. NodesListed sel (Inr items) \<in> set e \<longrightarrow>
             (\<forall>nd \<in> set items. NodeUpdated (removeLabels nd karmadaNodeLabel) None \<in> set e))"
        using Some by simp
    qed (use p s' t1 t2 t3 in \<open>simp_all add: dry_def ns_def\<close>)
  next
    case None
    with i have i5: "i = 5" by simp
    obtain r2 s2 where n: "removeNodeLabels opts s1 = (r2, s2)"
      by (cases "removeNodeLabels opts s1")
    from removeNodeLabels_log [OF n] obtain res new where
      new: "calls s2 = calls s1 @ NodesListed karmadaNodeLabel res # new"
        "\<forall>ev \<in> set new. \<exists>nd a. ev = NodeUpdated nd a"
        "failFast r2 (NodesListed karmadaNodeLabel res # new)"
        "dry \<longrightarrow> new = []"
        "r2 = None \<and> \<not> dry \<longrightarrow> (\<exists>items. res = Inr items
           \<and> new = map (\<lambda>nd. NodeUpdated (removeLabels nd karmadaNodeLabel) None) items)"
        "dry \<or> r2 = None \<longrightarrow> out s2 = out s1 @ notices (NodesListed karmadaNodeLabel res)"
      unfolding dry_def by blast
    define evs where "evs = e @ NodesListed karmadaNodeLabel res # new"
    from rest None n have p: "p = Return r2"
      and s': "s' = (if r2 = None then print MsgSuccess s2 else s2)"
      by (cases r2; simp)+
    have c: "calls s' = calls s0 @ evs"
      using s' new(1) t1 by (simp add: evs_def print_def)
    have st: "\<forall>ev \<in> set (NodesListed karmadaNodeLabel res # new). stage ev = Suc 5"
      using stage_NodeUpdated [OF new(2)] by simp
    have pr: "r2 = None \<longrightarrow>
        (\<forall>k. kindStage k = Suc 5 \<longrightarrow> processed dry k (scope k ns) (NodesListed karmadaNodeLabel res # new))"
      using kindStage_neq6 by simp
    have "reached dry ns (Suc 5) r2 (e @ NodesListed karmadaNodeLabel res # new)"
      using t2 [unfolded None i5] st new(3) pr by (rule reached_step)
    then have re: "reached dry ns 6 r2 evs" by (simp add: evs_def)
    have mu: "dry \<longrightarrow> (\<forall>ev \<in> set evs. \<not> mutation ev)"
      using t3 new(4) by (auto simp: evs_def)
    have no: "concat (map notices evs)
        = concat (map notices e) @ notices (NodesListed karmadaNodeLabel res)"
      using notices_NodeUpdated [OF new(2)] by (simp add: evs_def)
    have ou: "dry \<or> r2 = None \<longrightarrow>
        out s' = out s0 @ concat (map notices evs) @ (if r2 = None then [MsgSuccess] else [])"
      using t4 None new(6) s' no by (simp add: print_def)
    have e6: "\<forall>ev \<in> set e. stage ev \<le> 5"
      using t2 i5 by (simp add: reached_def)
    have sp: "r2 = None \<and> \<not> dry \<longrightarrow>
          (\<forall>sel items. NodesListed sel (Inr items) \<in> set evs \<longrightarrow>
             (\<forall>nd \<in> set items. NodeUpdated (removeLabels nd karmadaNodeLabel) None \<in> set evs))"
    proof (intro impI allI ballI)
      fix sel items nd
      assume a: "r2 = None \<and> \<not> dry" and l: "NodesListed sel (Inr items) \<in> set evs"
        and nd: "nd \<in> set items"
      from a new(5) obtain items' where res: "res = Inr items'"
        and nw: "new = map (\<lambda>nd. NodeUpdated (removeLabels nd karmadaNodeLabel) None) items'"
        by blast
      have "NodesListed sel (Inr items) \<notin> set e" using e6 by fastforce
      moreover have "NodesListed sel (Inr items) \<notin> set new" using new(2) by fastforce
      ultimately have "NodesListed sel (Inr items) = NodesListed karmadaNodeLabel res"
        using l by (simp add: evs_def)
      with res have "items' = items" by simp
      with nw nd have "NodeUpdated (removeLabels nd karmadaNodeLabel) None \<in> set new" by simp
      then show "NodeUpdated (removeLabels nd karmadaNodeLabel) None \<in> set evs"
        by (simp add: evs_def)
    qed
    show ?thesis
      by (intro exI [of _ r2] exI [of _ 6] exI [of _ evs] conjI)
        (use p c re mu ou sp in \<open>simp_all add: dry_def ns_def\<close>)
  qed
qed


section \<open>The teardown on the examples\<close>

lemmas run_defs = Run_def delete_def deleteWorkload_def deleteByLabel_def callList_def callDelete_def
  callListNodes_def callUpdateNode_def removeNodeLabels_def removeLabels_def print_def
  fakeClient_def staleClient_def hasLabel_def isObj_def deleteKey_def Let_def

lemma Run_demo: "Run demoOpts yesStdin demoState = Some (Return None, demoDone)"
  by (simp add: run_defs deleteConfirmation_yesStdin demoOpts_def demoState_def demoCluster_def
      demoDone_def boot_def LabelSelector_def karmadaNodeLabel_def)

lemma Run_dry: "Run dryOpts yesStdin demoState = Some (Return None, dryDone)"
  by (simp add: run_defs deleteConfirmation_yesStdin dryOpts_def demoOpts_def demoState_def
      demoCluster_def dryDone_def boot_def LabelSelector_def karmadaNodeLabel_def)

lemma Run_raced: "Run staleOpts yesStdin racedState = Some (Return (Some StatusNotFound), racedDone)"
  by (simp add: run_defs deleteConfirmation_yesStdin staleOpts_def demoOpts_def racedState_def
      racedCluster_def demoCluster_def racedDone_def boot_def LabelSelector_def karmadaNodeLabel_def)

lemma Run_log:
  assumes "Run opts stdin s = Some (p, s')"
  shows "\<exists>b ms. deleteConfirmation stdin 0 (out s @ [MsgRemoves]) = Some (b, ms)
     \<and> (b \<noteq> Return True \<longrightarrow> calls s' = calls s \<and> world s' = world s \<and> out s' = ms
           \<and> (p = Return None \<or> (\<exists>n. p = Exit n)))
     \<and> (b = Return True \<longrightarrow> (\<exists>r i evs. p = Return r \<and> calls s' = calls s @ evs
         \<and> reached (DryRun opts) (Namespace opts) i r evs
         \<and> (DryRun opts \<longrightarrow> (\<forall>ev \<in> set evs. \<not> mutation ev))
         \<and> (DryRun opts \<or> r = None \<longrightarrow>
              out s' = ms @ concat (map notices evs) @ (if r = None then [MsgSuccess] else []))
         \<and> (r = None \<and> \<not> DryRun opts \<longrightarrow>
              (\<forall>sel items. NodesListed sel (Inr items) \<in> set evs \<longrightarrow>
                 (\<forall>nd \<in> set items.
                    NodeUpdated (removeLabels nd karmadaNodeLabel) None \<in> set evs)))))"
proof (cases "deleteConfirmation stdin 0 (out s @ [MsgRemoves])")
  case None
  with assms show ?thesis by (simp add: Run_def)
next
  case (Some bm)
  obtain b ms where bm: "bm = (b, ms)" by (cases bm)
  show ?thesis
  proof (cases "b = Return True")
    case False
    with assms Some bm show ?thesis
      by (cases b) (auto simp: Run_def)
  next
    case True
    obtain r1 s1 where d: "delete opts (s\<lparr>out := ms\<rparr>) = (r1, s1)"
      by (cases "delete opts (s\<lparr>out := ms\<rparr>)")
    from assms Some bm True d
    have "(case r1 of
             Some er \<Rightarrow> (Return (Some er), s1)
           | None \<Rightarrow> (case removeNodeLabels opts s1 of
                        (Some er, s2) \<Rightarrow> (Return (Some er), s2)
                      | (None, s2) \<Rightarrow> (Return None, print MsgSuccess s2))) = (p, s')"
      by (cases r1) (simp_all add: Run_def)
    from teardown_log [OF d this] Some bm True show ?thesis by simp
  qed
qed

section \<open>Errors, order, dry run and nodes\<close>

lemma failFast_last:
  assumes "failFast r evs" and "ev \<in> set evs" and "failed ev = Some er"
  shows "r = Some er \<and> last evs = ev"
proof -
  from assms(2) have ne: "evs \<noteq> []" by auto
  then have "evs = butlast evs @ [last evs]" by simp
  then have "set evs = set (butlast evs) \<union> {last evs}"
    by (metis list.simps(15) set_append empty_set)
  moreover from assms have "ev \<notin> set (butlast evs)" by (auto simp: failFast_def)
  ultimately have l: "last evs = ev" using assms(2) by auto
  with assms show ?thesis by (cases r) (auto simp: failFast_def)
qed

text \<open>
  C1, amended. Whatever error a delete call reports, not found included, \<^verbatim>\<open>Run\<close> returns
  this error and the failed call is the last call it has made; only after calls without
  error does it go on, so a run that returns nil has seen no error.
\<close>

theorem Run_delete_error_aborts:
  assumes "Run opts stdin s = Some (p, s')" and "calls s' = calls s @ evs"
  shows "(Deleted k ns n (Some er) \<in> set evs \<longrightarrow>
            p = Return (Some er) \<and> last evs = Deleted k ns n (Some er))
       \<and> (p = Return None \<longrightarrow> (\<forall>ev \<in> set evs. failed ev = None))"
proof -
  from Run_log [OF assms(1)] obtain b ms where
    nb: "b \<noteq> Return True \<longrightarrow> calls s' = calls s"
    and yb: "b = Return True \<longrightarrow> (\<exists>r i evs. p = Return r \<and> calls s' = calls s @ evs
         \<and> reached (DryRun opts) (Namespace opts) i r evs)"
    by blast
  show ?thesis
  proof (cases "b = Return True")
    case False
    with nb assms(2) have "evs = []" by simp
    then show ?thesis by simp
  next
    case True
    with yb assms(2) obtain r i where p: "p = Return r"
      and re: "reached (DryRun opts) (Namespace opts) i r evs"
      by auto
    from re have ff: "failFast r evs" by (simp add: reached_def)
    have 1: "Deleted k ns n (Some er) \<in> set evs \<longrightarrow>
        p = Return (Some er) \<and> last evs = Deleted k ns n (Some er)"
      using failFast_last [OF ff, of "Deleted k ns n (Some er)" er] p by simp
    have 2: "p = Return None \<longrightarrow> (\<forall>ev \<in> set evs. failed ev = None)"
      using ff p by (auto simp: failFast_def)
    from 1 2 show ?thesis ..
  qed
qed

theorem Run_delete_error_aborts_witness:
  "Run staleOpts yesStdin racedState = Some (Return (Some StatusNotFound), racedDone)
   \<and> Deleted Deployment (Some ''ks'') ''api'' (Some StatusNotFound) \<in> set (calls racedDone)
   \<and> last (calls racedDone) = Deleted Deployment (Some ''ks'') ''api'' (Some StatusNotFound)"
proof -
  have c: "calls racedDone = calls racedState @ calls racedDone"
    by (simp add: racedState_def)
  have m: "Deleted Deployment (Some ''ks'') ''api'' (Some StatusNotFound) \<in> set (calls racedDone)"
    by (simp add: racedDone_def)
  from Run_delete_error_aborts [OF Run_raced c, of Deployment "Some ''ks''" "''api''" StatusNotFound]
    m Run_raced
  show ?thesis by simp
qed

theorem Run_not_found_aborts_counterexample:
  "Run staleOpts yesStdin racedState = Some (Return (Some StatusNotFound), racedDone)
   \<and> \<not> DryRun staleOpts
   \<and> calls racedDone = [Listed Deployment (Some ''ks'') LabelSelector (Inr [''api'']),
                        Deleted Deployment (Some ''ks'') ''api'' (Some StatusNotFound)]
   \<and> objs (world racedDone) = objs racedCluster"
proof (intro conjI)
  show "Run staleOpts yesStdin racedState = Some (Return (Some StatusNotFound), racedDone)"
    by (rule Run_raced)
qed (simp_all add: staleOpts_def demoOpts_def racedDone_def)

text \<open>
  C2. The calls of \<^verbatim>\<open>Run\<close> come in the order of the stages; when a call of a stage is
  made, every kind of an earlier stage has been listed and, unless the run is dry, every
  item of its list deleted without error; and a call that answers with an error is the
  last call, its error the result of \<^verbatim>\<open>Run\<close>.
\<close>

theorem Run_stages_in_order:
  assumes "Run opts stdin s = Some (p, s')"
  shows "\<exists>evs. calls s' = calls s @ evs
     \<and> sorted (map stage evs)
     \<and> (\<forall>ev \<in> set evs. 1 \<le> stage ev \<and>
          (\<forall>k. kindStage k < stage ev \<longrightarrow>
             processed (DryRun opts) k (scope k (Namespace opts)) evs))
     \<and> (\<forall>ev \<in> set evs. \<forall>er. failed ev = Some er \<longrightarrow> p = Return (Some er) \<and> last evs = ev)
     \<and> (\<forall>er. p = Return (Some er) \<longrightarrow> evs \<noteq> [] \<and> failed (last evs) = Some er)"
proof -
  from Run_log [OF assms] obtain b ms where
    nb: "b \<noteq> Return True \<longrightarrow> calls s' = calls s \<and> (p = Return None \<or> (\<exists>n. p = Exit n))"
    and yb: "b = Return True \<longrightarrow> (\<exists>r i evs. p = Return r \<and> calls s' = calls s @ evs
         \<and> reached (DryRun opts) (Namespace opts) i r evs)"
    by blast
  show ?thesis
  proof (cases "b = Return True")
    case False
    with nb show ?thesis by (intro exI [of _ "[]"]) auto
  next
    case True
    with yb obtain r i evs where p: "p = Return r" and c: "calls s' = calls s @ evs"
      and re: "reached (DryRun opts) (Namespace opts) i r evs"
      by auto
    from re have ff: "failFast r evs" and so: "sorted (map stage evs)"
      and st: "\<forall>ev \<in> set evs. 1 \<le> stage ev"
      by (simp_all add: reached_def)
    have pr: "\<forall>ev \<in> set evs. 1 \<le> stage ev \<and>
          (\<forall>k. kindStage k < stage ev \<longrightarrow>
             processed (DryRun opts) k (scope k (Namespace opts)) evs)"
      using st reached_mono [OF re] by blast
    have f1: "\<forall>ev \<in> set evs. \<forall>er. failed ev = Some er \<longrightarrow> p = Return (Some er) \<and> last evs = ev"
      using failFast_last [OF ff] p by blast
    have f2: "\<forall>er. p = Return (Some er) \<longrightarrow> evs \<noteq> [] \<and> failed (last evs) = Some er"
      using ff p by (auto simp: failFast_def)
    from c so pr f1 f2 show ?thesis by blast
  qed
qed

theorem Run_stages_in_order_witness:
  "\<exists>evs. calls demoDone = calls demoState @ evs
     \<and> sorted (map stage evs)
     \<and> (\<forall>ev \<in> set evs. 1 \<le> stage ev \<and>
          (\<forall>k. kindStage k < stage ev \<longrightarrow>
             processed (DryRun demoOpts) k (scope k (Namespace demoOpts)) evs))
     \<and> (\<forall>ev \<in> set evs. \<forall>er. failed ev = Some er \<longrightarrow>
          Return None = Return (Some er) \<and> last evs = ev)
     \<and> (\<forall>er. (Return None :: err option proc) = Return (Some er) \<longrightarrow>
          evs \<noteq> [] \<and> failed (last evs) = Some er)"
  by (rule Run_stages_in_order [OF Run_demo])


lemma notices_in_concat: "ev \<in> set evs \<Longrightarrow> m \<in> set (notices ev) \<Longrightarrow> m \<in> set (concat (map notices evs))"
  by auto

text \<open>
  C3. In a dry run no call of \<^verbatim>\<open>Run\<close> is a delete or an update of a node, and what
  \<^verbatim>\<open>Run\<close> prints after the confirmation is one notice for each object its discoveries
  have named, in their order, and then the closing line when it returns nil.
\<close>

theorem Run_dry_run_pure:
  assumes "DryRun opts" and "Run opts stdin s = Some (p, s')"
  shows "\<exists>evs b ms. calls s' = calls s @ evs
     \<and> (\<forall>ev \<in> set evs. \<not> mutation ev)
     \<and> deleteConfirmation stdin 0 (out s @ [MsgRemoves]) = Some (b, ms)
     \<and> out s' = ms @ concat (map notices evs)
                   @ (if b = Return True \<and> p = Return None then [MsgSuccess] else [])
     \<and> (\<forall>k ns sel items. Listed k ns sel (Inr items) \<in> set evs \<longrightarrow>
          (\<forall>n \<in> set items. MsgDelete k n \<in> set (out s')))
     \<and> (\<forall>sel items. NodesListed sel (Inr items) \<in> set evs \<longrightarrow>
          (\<forall>nd \<in> set items. MsgRemoveNode (Name nd) sel \<in> set (out s')))"
proof -
  from Run_log [OF assms(2)] obtain b ms where
    dc: "deleteConfirmation stdin 0 (out s @ [MsgRemoves]) = Some (b, ms)"
    and nb: "b \<noteq> Return True \<longrightarrow> calls s' = calls s \<and> out s' = ms"
    and yb: "b = Return True \<longrightarrow> (\<exists>r i evs. p = Return r \<and> calls s' = calls s @ evs
         \<and> (DryRun opts \<longrightarrow> (\<forall>ev \<in> set evs. \<not> mutation ev))
         \<and> (DryRun opts \<or> r = None \<longrightarrow>
              out s' = ms @ concat (map notices evs) @ (if r = None then [MsgSuccess] else [])))"
    by blast
  have "\<exists>evs. calls s' = calls s @ evs
     \<and> (\<forall>ev \<in> set evs. \<not> mutation ev)
     \<and> out s' = ms @ concat (map notices evs)
                   @ (if b = Return True \<and> p = Return None then [MsgSuccess] else [])"
  proof (cases "b = Return True")
    case False
    with nb show ?thesis by (intro exI [of _ "[]"]) simp
  next
    case True
    with yb assms(1) obtain r evs where "p = Return r" "calls s' = calls s @ evs"
      "\<forall>ev \<in> set evs. \<not> mutation ev"
      "out s' = ms @ concat (map notices evs) @ (if r = None then [MsgSuccess] else [])"
      by auto
    with True show ?thesis by (intro exI [of _ evs]) simp
  qed
  then obtain evs where c: "calls s' = calls s @ evs" and m: "\<forall>ev \<in> set evs. \<not> mutation ev"
    and o: "out s' = ms @ concat (map notices evs)
                   @ (if b = Return True \<and> p = Return None then [MsgSuccess] else [])"
    by blast
  have sub: "set (concat (map notices evs)) \<subseteq> set (out s')"
    by (subst o) auto
  have l: "\<forall>k ns sel items. Listed k ns sel (Inr items) \<in> set evs \<longrightarrow>
          (\<forall>n \<in> set items. MsgDelete k n \<in> set (out s'))"
  proof (intro allI impI ballI)
    fix k ns sel items n
    assume "Listed k ns sel (Inr items) \<in> set evs" and "n \<in> set items"
    then have "MsgDelete k n \<in> set (concat (map notices evs))"
      by (intro notices_in_concat [of "Listed k ns sel (Inr items)"]) simp_all
    with sub show "MsgDelete k n \<in> set (out s')" by blast
  qed
  have n: "\<forall>sel items. NodesListed sel (Inr items) \<in> set evs \<longrightarrow>
          (\<forall>nd \<in> set items. MsgRemoveNode (Name nd) sel \<in> set (out s'))"
  proof (intro allI impI ballI)
    fix sel items nd
    assume "NodesListed sel (Inr items) \<in> set evs" and "nd \<in> set items"
    then have "MsgRemoveNode (Name nd) sel \<in> set (concat (map notices evs))"
      by (intro notices_in_concat [of "NodesListed sel (Inr items)"]) auto
    with sub show "MsgRemoveNode (Name nd) sel \<in> set (out s')" by blast
  qed
  from c m dc o l n show ?thesis by blast
qed

theorem Run_dry_run_pure_witness:
  "DryRun dryOpts \<and> Run dryOpts yesStdin demoState = Some (Return None, dryDone)
   \<and> (\<exists>evs b ms. calls dryDone = calls demoState @ evs
     \<and> (\<forall>ev \<in> set evs. \<not> mutation ev)
     \<and> deleteConfirmation yesStdin 0 (out demoState @ [MsgRemoves]) = Some (b, ms)
     \<and> out dryDone = ms @ concat (map notices evs)
                   @ (if b = Return True \<and> Return None = (Return None :: err option proc)
                      then [MsgSuccess] else [])
     \<and> (\<forall>k ns sel items. Listed k ns sel (Inr items) \<in> set evs \<longrightarrow>
          (\<forall>n \<in> set items. MsgDelete k n \<in> set (out dryDone)))
     \<and> (\<forall>sel items. NodesListed sel (Inr items) \<in> set evs \<longrightarrow>
          (\<forall>nd \<in> set items. MsgRemoveNode (Name nd) sel \<in> set (out dryDone))))"
proof -
  have d: "DryRun dryOpts" by (simp add: dryOpts_def)
  from Run_dry_run_pure [OF d Run_dry] d Run_dry show ?thesis by blast
qed

text \<open>
  C4, amended. After a teardown that is not dry and returns nil, every node that the
  discovery by the node label has named has been updated, without error, to its labels
  without the keys that contain \<open>karmada.io/etcd\<close>.
\<close>

theorem Run_strips_listed_nodes:
  assumes "Run opts stdin s = Some (Return None, s')" and "\<not> DryRun opts"
    and "calls s' = calls s @ evs"
    and "NodesListed sel (Inr items) \<in> set evs" and "nd \<in> set items"
  shows "NodeUpdated (removeLabels nd karmadaNodeLabel) None \<in> set evs
       \<and> Name (removeLabels nd karmadaNodeLabel) = Name nd
       \<and> Labels (removeLabels nd karmadaNodeLabel)
           = filter (\<lambda>kv. \<not> Contains (fst kv) ''karmada.io/etcd'') (Labels nd)"
proof -
  from Run_log [OF assms(1)] obtain b ms where
    nb: "b \<noteq> Return True \<longrightarrow> calls s' = calls s"
    and yb: "b = Return True \<longrightarrow> (\<exists>r i evs. Return None = Return r \<and> calls s' = calls s @ evs
         \<and> (r = None \<and> \<not> DryRun opts \<longrightarrow>
              (\<forall>sel items. NodesListed sel (Inr items) \<in> set evs \<longrightarrow>
                 (\<forall>nd \<in> set items.
                    NodeUpdated (removeLabels nd karmadaNodeLabel) None \<in> set evs))))"
    by blast
  have "b = Return True"
  proof (rule ccontr)
    assume "b \<noteq> Return True"
    with nb assms(3) have "evs = []" by simp
    with assms(4) show False by simp
  qed
  with yb assms(2) assms(3) have "\<forall>sel items. NodesListed sel (Inr items) \<in> set evs \<longrightarrow>
      (\<forall>nd \<in> set items. NodeUpdated (removeLabels nd karmadaNodeLabel) None \<in> set evs)"
    by auto
  with assms(4) assms(5) have "NodeUpdated (removeLabels nd karmadaNodeLabel) None \<in> set evs"
    by blast
  then show ?thesis
    by (simp add: Name_removeLabels Labels_removeLabels karmadaNodeLabel_def)
qed

theorem Run_strips_listed_nodes_witness:
  "NodeUpdated (removeLabels \<lparr>Name = ''n1'',
        Labels = [(''karmada.io/etcd'', []), (''other.io/x'', ''1'')]\<rparr> karmadaNodeLabel) None
     \<in> set (calls demoDone)
   \<and> Labels (removeLabels \<lparr>Name = ''n1'',
        Labels = [(''karmada.io/etcd'', []), (''other.io/x'', ''1'')]\<rparr> karmadaNodeLabel)
       = [(''other.io/x'', ''1'')]"
proof -
  define n1 where "n1 = \<lparr>Name = ''n1'',
        Labels = [(''karmada.io/etcd'', []), (''other.io/x'', ''1'')]\<rparr>"
  have d: "\<not> DryRun demoOpts" by (simp add: demoOpts_def)
  have c: "calls demoDone = calls demoState @ calls demoDone" by (simp add: demoState_def)
  have l: "NodesListed karmadaNodeLabel (Inr [n1]) \<in> set (calls demoDone)"
    by (simp add: demoDone_def n1_def)
  have n: "n1 \<in> set [n1]" by simp
  from Run_strips_listed_nodes [OF Run_demo d c l n]
  show ?thesis by (simp add: n1_def)
qed

theorem Run_leaves_unlisted_node_counterexample:
  "Run demoOpts yesStdin demoState = Some (Return None, demoDone)
   \<and> \<not> DryRun demoOpts
   \<and> \<lparr>Name = ''n2'', Labels = [(''karmada.io/etcd-old'', [])]\<rparr> \<in> set (nodes (world demoDone))
   \<and> Contains ''karmada.io/etcd-old'' ''karmada.io/etcd''"
proof (intro conjI)
  show "Run demoOpts yesStdin demoState = Some (Return None, demoDone)"
    by (rule Run_demo)
qed (simp_all add: demoOpts_def demoDone_def)


lemma updateNodes_single:
  assumes "UpdateNode c (removeLabels nd karmadaNodeLabel) (world s) = (a, w)"
  shows "updateNodes c False [nd] s
     = (a, s\<lparr>world := w,
             calls := calls s @ [NodeUpdated (removeLabels nd karmadaNodeLabel) a],
             out := out s @ [MsgRemoveNode (Name nd) karmadaNodeLabel]\<rparr>)"
  using assms
  by (cases a) (simp_all add: Let_def print_def callUpdateNode_def Name_removeLabels)

text \<open>
  C6. \<^verbatim>\<open>removeLabels\<close> removes from a node the labels whose key contains the given
  string and no other: the node of the example keeps \<open>other.io/x\<close> alone, and a node
  without such a key is the same node afterwards. \<^verbatim>\<open>removeNodeLabels\<close> sends every node
  its discovery names to the update with the keys of \<open>karmadaNodeLabel\<close> removed so: for
  one node the result is that of its update, and a pass over any nodes that returns nil
  has updated each of them in turn. When the discovery names no node, the pass prints
  that none was found and returns nil.
\<close>

theorem removeLabels_scope:
  "removeLabels \<lparr>Name = nm, Labels = [(''karmada.io/etcd'', []), (''other.io/x'', ''1'')]\<rparr>
       karmadaNodeLabel
     = \<lparr>Name = nm, Labels = [(''other.io/x'', ''1'')]\<rparr>
   \<and> removeLabels nd l = nd\<lparr>Labels := filter (\<lambda>kv. \<not> Contains (fst kv) l) (Labels nd)\<rparr>
   \<and> ((\<forall>kv \<in> set (Labels nd). \<not> Contains (fst kv) l) \<longrightarrow> removeLabels nd l = nd)
   \<and> (ListNodes (KubeClientSet opts) karmadaNodeLabel (world s) = (Inr [], w) \<longrightarrow>
        removeNodeLabels opts s
          = (None, s\<lparr>world := w,
                      calls := calls s @ [NodesListed karmadaNodeLabel (Inr [])],
                      out := out s @ [MsgNodeNotFound karmadaNodeLabel]\<rparr>))
   \<and> (\<not> DryRun opts
        \<and> ListNodes (KubeClientSet opts) karmadaNodeLabel (world s) = (Inr [nd], w)
        \<and> UpdateNode (KubeClientSet opts) (removeLabels nd karmadaNodeLabel) w = (a, w') \<longrightarrow>
        removeNodeLabels opts s
          = (a, s\<lparr>world := w',
                   calls := calls s @ [NodesListed karmadaNodeLabel (Inr [nd]),
                                       NodeUpdated (removeLabels nd karmadaNodeLabel) a],
                   out := out s @ [MsgRemoveNode (Name nd) karmadaNodeLabel]\<rparr>))
   \<and> (\<not> DryRun opts
        \<and> ListNodes (KubeClientSet opts) karmadaNodeLabel (world s) = (Inr items, w)
        \<and> removeNodeLabels opts s = (None, s') \<longrightarrow>
        calls s' = calls s @ NodesListed karmadaNodeLabel (Inr items)
                     # map (\<lambda>nd. NodeUpdated (removeLabels nd karmadaNodeLabel) None) items)"
proof (intro conjI impI)
  show "removeLabels \<lparr>Name = nm, Labels = [(''karmada.io/etcd'', []), (''other.io/x'', ''1'')]\<rparr>
       karmadaNodeLabel
     = \<lparr>Name = nm, Labels = [(''other.io/x'', ''1'')]\<rparr>"
    by (simp add: removeLabels_def karmadaNodeLabel_def deleteKey_def)
  have "Labels (removeLabels nd l) = filter (\<lambda>kv. \<not> Contains (fst kv) l) (Labels nd)"
    by (rule Labels_removeLabels)
  then show "removeLabels nd l = nd\<lparr>Labels := filter (\<lambda>kv. \<not> Contains (fst kv) l) (Labels nd)\<rparr>"
    by (simp add: removeLabels_def)
  show "removeLabels nd l = nd" if "\<forall>kv \<in> set (Labels nd). \<not> Contains (fst kv) l"
    using that by (rule removeLabels_id)
  show "removeNodeLabels opts s
          = (None, s\<lparr>world := w,
                      calls := calls s @ [NodesListed karmadaNodeLabel (Inr [])],
                      out := out s @ [MsgNodeNotFound karmadaNodeLabel]\<rparr>)"
    if "ListNodes (KubeClientSet opts) karmadaNodeLabel (world s) = (Inr [], w)"
    using that by (simp add: removeNodeLabels_def callListNodes_def print_def)
  show "removeNodeLabels opts s
          = (a, s\<lparr>world := w',
                   calls := calls s @ [NodesListed karmadaNodeLabel (Inr [nd]),
                                       NodeUpdated (removeLabels nd karmadaNodeLabel) a],
                   out := out s @ [MsgRemoveNode (Name nd) karmadaNodeLabel]\<rparr>)"
    if h: "\<not> DryRun opts
        \<and> ListNodes (KubeClientSet opts) karmadaNodeLabel (world s) = (Inr [nd], w)
        \<and> UpdateNode (KubeClientSet opts) (removeLabels nd karmadaNodeLabel) w = (a, w')"
  proof -
    define s1 where "s1 = s\<lparr>world := w, calls := calls s @ [NodesListed karmadaNodeLabel (Inr [nd])]\<rparr>"
    from h have d: "\<not> DryRun opts"
      and l: "ListNodes (KubeClientSet opts) karmadaNodeLabel (world s) = (Inr [nd], w)"
      and u0: "UpdateNode (KubeClientSet opts) (removeLabels nd karmadaNodeLabel) w = (a, w')"
      by simp_all
    have u: "UpdateNode (KubeClientSet opts) (removeLabels nd karmadaNodeLabel) (world s1) = (a, w')"
      using u0 by (simp add: s1_def)
    have "removeNodeLabels opts s = updateNodes (KubeClientSet opts) False [nd] s1"
      using d l by (simp add: removeNodeLabels_def callListNodes_def s1_def)
    also note updateNodes_single [OF u]
    finally show ?thesis by (simp add: s1_def)
  qed
  show "calls s' = calls s @ NodesListed karmadaNodeLabel (Inr items)
                     # map (\<lambda>nd. NodeUpdated (removeLabels nd karmadaNodeLabel) None) items"
    if h: "\<not> DryRun opts
        \<and> ListNodes (KubeClientSet opts) karmadaNodeLabel (world s) = (Inr items, w)
        \<and> removeNodeLabels opts s = (None, s')"
  proof -
    define s1 where "s1 = s\<lparr>world := w, calls := calls s @ [NodesListed karmadaNodeLabel (Inr items)]\<rparr>"
    from h have d: "\<not> DryRun opts"
      and l: "ListNodes (KubeClientSet opts) karmadaNodeLabel (world s) = (Inr items, w)"
      and r: "removeNodeLabels opts s = (None, s')"
      by simp_all
    show ?thesis
    proof (cases "items = []")
      case True
      with r l show ?thesis
        by (auto simp: removeNodeLabels_def callListNodes_def print_def)
    next
      case False
      with r l have u: "updateNodes (KubeClientSet opts) (DryRun opts) items s1 = (None, s')"
        by (simp add: removeNodeLabels_def callListNodes_def s1_def)
      from updateNodes_log [OF u] d
      have "calls s' = calls s1 @ map (\<lambda>nd. NodeUpdated (removeLabels nd karmadaNodeLabel) None) items"
        by auto
      then show ?thesis by (simp add: s1_def)
    qed
  qed
qed

theorem removeLabels_scope_witness:
  "removeLabels \<lparr>Name = ''n2'', Labels = [(''karmada.io/etcd-old'', [])]\<rparr> ''other.io''
     = \<lparr>Name = ''n2'', Labels = [(''karmada.io/etcd-old'', [])]\<rparr>
   \<and> removeNodeLabels demoOpts (demoState\<lparr>world := demoCluster\<lparr>nodes := []\<rparr>\<rparr>)
      = (None, demoState\<lparr>world := demoCluster\<lparr>nodes := []\<rparr>,
                        calls := [NodesListed karmadaNodeLabel (Inr [])],
                        out := [MsgNodeNotFound karmadaNodeLabel]\<rparr>)
   \<and> removeNodeLabels demoOpts demoState
      = (None, demoState\<lparr>world := demoCluster\<lparr>nodes := nodes (world demoDone)\<rparr>,
           calls := [NodesListed karmadaNodeLabel
                       (Inr [\<lparr>Name = ''n1'',
                               Labels = [(''karmada.io/etcd'', []), (''other.io/x'', ''1'')]\<rparr>]),
                     NodeUpdated \<lparr>Name = ''n1'', Labels = [(''other.io/x'', ''1'')]\<rparr> None],
           out := [MsgRemoveNode ''n1'' karmadaNodeLabel]\<rparr>)"
proof -
  define n1 where "n1 = \<lparr>Name = ''n1'',
        Labels = [(''karmada.io/etcd'', []), (''other.io/x'', ''1'')]\<rparr>"
  define n2 where "n2 = \<lparr>Name = ''n2'', Labels = [(''karmada.io/etcd-old'', [])]\<rparr>"
  define s0 where "s0 = demoState\<lparr>world := demoCluster\<lparr>nodes := []\<rparr>\<rparr>"
  define w1 where "w1 = demoCluster\<lparr>nodes := nodes (world demoDone)\<rparr>"
  have a: "\<forall>kv \<in> set (Labels n2). \<not> Contains (fst kv) ''other.io''"
    by (simp add: n2_def)
  have b: "ListNodes (KubeClientSet demoOpts) karmadaNodeLabel (world s0)
      = (Inr [], demoCluster\<lparr>nodes := []\<rparr>)"
    by (simp add: demoOpts_def fakeClient_def s0_def)
  have c: "calls s0 = []" "out s0 = []" "calls demoState = []" "out demoState = []"
    by (simp_all add: s0_def demoState_def)
  have d: "\<not> DryRun demoOpts" by (simp add: demoOpts_def)
  have l: "ListNodes (KubeClientSet demoOpts) karmadaNodeLabel (world demoState)
      = (Inr [n1], demoCluster)"
    by (simp add: demoOpts_def fakeClient_def demoState_def demoCluster_def n1_def
        hasLabel_def karmadaNodeLabel_def)
  have r: "removeLabels n1 karmadaNodeLabel = \<lparr>Name = ''n1'', Labels = [(''other.io/x'', ''1'')]\<rparr>"
    by (simp add: removeLabels_def karmadaNodeLabel_def deleteKey_def n1_def)
  have u: "UpdateNode (KubeClientSet demoOpts) (removeLabels n1 karmadaNodeLabel) demoCluster
      = (None, w1)"
    by (simp add: r demoOpts_def fakeClient_def demoCluster_def demoDone_def w1_def)
  from removeLabels_scope [of "''n1''" n2 "''other.io''" demoOpts s0 "demoCluster\<lparr>nodes := []\<rparr>"] a b c
  have 1: "removeLabels n2 ''other.io'' = n2"
    and 2: "removeNodeLabels demoOpts s0
      = (None, s0\<lparr>world := demoCluster\<lparr>nodes := []\<rparr>,
                    calls := [NodesListed karmadaNodeLabel (Inr [])],
                    out := [MsgNodeNotFound karmadaNodeLabel]\<rparr>)"
    by simp_all
  from removeLabels_scope [where opts = demoOpts and s = demoState and nd = n1 and w = demoCluster
      and a = None and w' = w1] d l u c
  have 3: "removeNodeLabels demoOpts demoState
      = (None, demoState\<lparr>world := w1,
           calls := [NodesListed karmadaNodeLabel (Inr [n1]),
                     NodeUpdated (removeLabels n1 karmadaNodeLabel) None],
           out := [MsgRemoveNode (Name n1) karmadaNodeLabel]\<rparr>)"
    by simp
  from 1 2 3 show ?thesis by (simp add: n2_def s0_def w1_def n1_def r [unfolded n1_def])
qed

section \<open>Completing the options\<close>

lemma Complete_unfold:
  assumes "path = (if KubeConfig opts = [] then Join e (HOME e) ''.kube/config'' else KubeConfig opts)"
  shows "Complete e opts s =
     (if \<not> Exists e path then (Some ErrEmptyConfig, opts\<lparr>KubeConfig := path\<rparr>, s)
      else case RestConfig e (Context opts) path of
             Inl er \<Rightarrow> (Some er, opts\<lparr>KubeConfig := path\<rparr>, s)
           | Inr cfg \<Rightarrow>
               (case NewClientSet e cfg of
                  Inl er \<Rightarrow> (Some er, opts\<lparr>KubeConfig := path\<rparr>, s)
                | Inr cs \<Rightarrow>
                    (case GetNamespace cs (Namespace opts) (world s) of
                       (r, w) \<Rightarrow> (r, opts\<lparr>KubeConfig := path, KubeClientSet := cs\<rparr>,
                                  s\<lparr>world := w, calls := calls s @ [NamespaceGot (Namespace opts) r]\<rparr>))))"
  unfolding assms Complete_def callGetNamespace_def
  by (auto simp: Let_def split: sum.splits option.splits prod.splits)

text \<open>
  C7. When the file of configuration is missing, when it cannot be read or the client
  cannot be built, or when the namespace cannot be got, the command returns the error of
  that step; it has then made no call but, in the last case, the get of the namespace,
  has read nothing from standard input and has printed nothing.
\<close>

theorem RunE_fails_before_Run:
  assumes "path = (if KubeConfig opts = [] then Join e (HOME e) ''.kube/config'' else KubeConfig opts)"
  shows "(\<not> Exists e path \<longrightarrow> RunE e opts stdin s = Some (Return (Some ErrEmptyConfig), s))
       \<and> (Exists e path \<and> RestConfig e (Context opts) path = Inl er \<longrightarrow>
            RunE e opts stdin s = Some (Return (Some er), s))
       \<and> (Exists e path \<and> RestConfig e (Context opts) path = Inr cfg \<and> NewClientSet e cfg = Inl er \<longrightarrow>
            RunE e opts stdin s = Some (Return (Some er), s))
       \<and> (Exists e path \<and> RestConfig e (Context opts) path = Inr cfg \<and> NewClientSet e cfg = Inr cs
            \<and> GetNamespace cs (Namespace opts) (world s) = (Some er, w) \<longrightarrow>
            RunE e opts stdin s
              = Some (Return (Some er),
                      s\<lparr>world := w, calls := calls s @ [NamespaceGot (Namespace opts) (Some er)]\<rparr>))
       \<and> (Complete e opts s = (Some er, o1, s1) \<longrightarrow>
            RunE e opts stdin s = Some (Return (Some er), s1))"
  by (simp add: RunE_def Complete_unfold [OF assms])

theorem RunE_fails_before_Run_witness:
  "RunE demoEnv (demoOpts\<lparr>KubeConfig := ''/none''\<rparr>) yesStdin demoState
     = Some (Return (Some ErrEmptyConfig), demoState)
   \<and> RunE demoEnv (demoOpts\<lparr>Context := ''other''\<rparr>) yesStdin demoState
     = Some (Return (Some (OtherError ''no context'')), demoState)
   \<and> RunE demoEnv (demoOpts\<lparr>KubeConfig := ''/bad''\<rparr>) yesStdin demoState
     = Some (Return (Some (OtherError ''no client'')), demoState)
   \<and> RunE demoEnv (demoOpts\<lparr>Namespace := ''absent''\<rparr>) yesStdin demoState
     = Some (Return (Some StatusNotFound),
             demoState\<lparr>calls := [NamespaceGot ''absent'' (Some StatusNotFound)]\<rparr>)"
proof -
  have 1: "''/none'' = (if KubeConfig (demoOpts\<lparr>KubeConfig := ''/none''\<rparr>) = []
        then Join demoEnv (HOME demoEnv) ''.kube/config''
        else KubeConfig (demoOpts\<lparr>KubeConfig := ''/none''\<rparr>))"
    by simp
  have 2: "''/kc'' = (if KubeConfig (demoOpts\<lparr>Context := ''other''\<rparr>) = []
        then Join demoEnv (HOME demoEnv) ''.kube/config''
        else KubeConfig (demoOpts\<lparr>Context := ''other''\<rparr>))"
    by (simp add: demoOpts_def)
  have 3: "''/bad'' = (if KubeConfig (demoOpts\<lparr>KubeConfig := ''/bad''\<rparr>) = []
        then Join demoEnv (HOME demoEnv) ''.kube/config''
        else KubeConfig (demoOpts\<lparr>KubeConfig := ''/bad''\<rparr>))"
    by simp
  have 4: "''/kc'' = (if KubeConfig (demoOpts\<lparr>Namespace := ''absent''\<rparr>) = []
        then Join demoEnv (HOME demoEnv) ''.kube/config''
        else KubeConfig (demoOpts\<lparr>Namespace := ''absent''\<rparr>))"
    by (simp add: demoOpts_def)
  have e: "\<not> Exists demoEnv ''/none''" "Exists demoEnv ''/kc''" "Exists demoEnv ''/bad''"
    "RestConfig demoEnv ''other'' ''/kc'' = Inl (OtherError ''no context'')"
    "RestConfig demoEnv [] ''/kc'' = Inr ''/kc''"
    "RestConfig demoEnv [] ''/bad'' = Inr ''/bad''"
    "NewClientSet demoEnv ''/bad'' = Inl (OtherError ''no client'')"
    "NewClientSet demoEnv ''/kc'' = Inr fakeClient"
    by (simp_all add: demoEnv_def)
  have g: "GetNamespace fakeClient ''absent'' (world demoState) = (Some StatusNotFound, demoCluster)"
    by (simp add: fakeClient_def demoState_def demoCluster_def)
  have o: "Context demoOpts = []" "calls demoState = []" "world demoState = demoCluster"
    by (simp_all add: demoOpts_def demoState_def)
  from RunE_fails_before_Run [where e = demoEnv and stdin = yesStdin and s = demoState, OF 1]
    RunE_fails_before_Run [where e = demoEnv and stdin = yesStdin and s = demoState
      and er = "OtherError ''no context''", OF 2]
    RunE_fails_before_Run [where e = demoEnv and stdin = yesStdin and s = demoState
      and er = "OtherError ''no client''" and cfg = "''/bad''", OF 3]
    RunE_fails_before_Run [where e = demoEnv and stdin = yesStdin and s = demoState
      and er = StatusNotFound and cfg = "''/kc''" and cs = fakeClient and w = demoCluster, OF 4]
    e g o
  show ?thesis by (simp add: demoState_def)
qed

text \<open>
  C10. With an empty path of configuration \<^verbatim>\<open>Complete\<close> goes on as with the path that
  joins \<^verbatim>\<open>HOME\<close> and \<open>.kube/config\<close>: this path is stored in the options, it is the
  one whose existence is checked, and the result is the error of the empty
  configuration when no file is there.
\<close>

theorem Complete_default_path:
  assumes "KubeConfig opts = []"
  shows "KubeConfig (fst (snd (Complete e opts s))) = Join e (HOME e) ''.kube/config''
       \<and> Complete e opts s = Complete e (opts\<lparr>KubeConfig := Join e (HOME e) ''.kube/config''\<rparr>) s
       \<and> (\<not> Exists e (Join e (HOME e) ''.kube/config'') \<longrightarrow>
            Complete e opts s
              = (Some ErrEmptyConfig, opts\<lparr>KubeConfig := Join e (HOME e) ''.kube/config''\<rparr>, s))"
proof -
  define J where "J = Join e (HOME e) ''.kube/config''"
  have p: "J = (if KubeConfig opts = [] then Join e (HOME e) ''.kube/config'' else KubeConfig opts)"
    using assms by (simp add: J_def)
  have q: "J = (if KubeConfig (opts\<lparr>KubeConfig := J\<rparr>) = [] then Join e (HOME e) ''.kube/config''
      else KubeConfig (opts\<lparr>KubeConfig := J\<rparr>))"
    by (simp add: J_def)
  have 1: "KubeConfig (fst (snd (Complete e opts s))) = J"
    unfolding Complete_unfold [OF p]
    by (simp split: sum.splits prod.splits)
  have 2: "Complete e opts s = Complete e (opts\<lparr>KubeConfig := J\<rparr>) s"
    unfolding Complete_unfold [OF p] Complete_unfold [OF q]
    by (auto split: sum.splits prod.splits)
  have 3: "\<not> Exists e J \<longrightarrow> Complete e opts s = (Some ErrEmptyConfig, opts\<lparr>KubeConfig := J\<rparr>, s)"
    unfolding Complete_unfold [OF p] by simp
  from 1 2 3 show ?thesis unfolding J_def by blast
qed

theorem Complete_default_path_witness:
  "Complete demoEnv (demoOpts\<lparr>KubeConfig := []\<rparr>) demoState
     = (Some ErrEmptyConfig, demoOpts\<lparr>KubeConfig := ''/root/.kube/config''\<rparr>, demoState)"
proof -
  have k: "KubeConfig (demoOpts\<lparr>KubeConfig := []\<rparr>) = []" by simp
  have j: "Join demoEnv (HOME demoEnv) ''.kube/config'' = ''/root/.kube/config''"
    by (simp add: demoEnv_def)
  have x: "\<not> Exists demoEnv ''/root/.kube/config''" by (simp add: demoEnv_def)
  from Complete_default_path [OF k, of demoEnv demoState]
  have "\<not> Exists demoEnv (Join demoEnv (HOME demoEnv) ''.kube/config'') \<longrightarrow>
      Complete demoEnv (demoOpts\<lparr>KubeConfig := []\<rparr>) demoState
        = (Some ErrEmptyConfig,
           demoOpts\<lparr>KubeConfig := [], KubeConfig := Join demoEnv (HOME demoEnv) ''.kube/config''\<rparr>,
           demoState)"
    by blast
  with j x show ?thesis by simp
qed

end
